theory Spec2Isabelle
  imports Complex_Main "HOL-Library.Multiset"
begin

section \<open>SNPrank: the data model\<close>

text \<open>
  The program (\<^verbatim>\<open>snprank.py\<close>) reads a tab-separated GAIN file, builds a transition
  matrix from the GAIN matrix and a damping factor \<open>gamma\<close>, iterates a rank vector until
  two successive iterates agree to within \<open>10**(-4)\<close> in every entry, and prints the
  names, scores and diagonal values sorted by descending score.

  The definitions below are polymorphic in the type \<open>'a\<close> of array entries. They use
  only the operations the source applies to numbers (\<open>0\<close>, \<open>1\<close>, \<open>+\<close>, \<open>-\<close>, \<open>*\<close>,
  \<open>/\<close>, \<open>abs\<close>, \<open><\<close>, equality with zero), so a statement proved for every \<open>'a\<close>
  does not depend on how these operations compute. Two types of entries are used where
  the arithmetic matters. At type \<^typ>\<open>real\<close> the arithmetic is exact: this is
  \<open>float64\<close> without rounding and without overflow, and since \<open>x / 0 = 0\<close> on
  \<^typ>\<open>real\<close> is not what numpy computes, the statements at this type carry the
  hypotheses that keep every divisor different from zero. At the type \<open>fl\<close> below the
  real numbers are extended by the IEEE special values that a division by zero
  produces.

  The rank engine, the loader and the formatter are given first as functions of the
  values of the arrays. The section on the store gives the same run on mutable
  objects with addresses, for the statements about what a run leaves unchanged; the
  two agree (\<open>main_store_main\<close>).

  A two-dimensional numpy array is a list of rows; a one-dimensional array is a list.
  The empty list of rows stands for the one-dimensional empty array of shape \<open>(0,)\<close>
  that \<open>array([], dtype=float64)\<close> builds.
\<close>

type_synonym 'a vec = "'a list"
type_synonym 'a mat = "'a list list"

text \<open>
  The Python exceptions the program can raise between reading the records and writing
  the output: \<open>StopIteration\<close> from \<open>reader.next()\<close> on an empty input,
  \<open>ValueError\<close> from \<open>array(..., dtype=float64)\<close> (a token that is not a number, or
  rows of different widths), \<open>ValueError\<close> from unpacking a one-element shape into
  \<open>m,n\<close>, and the program's own \<open>ValueError("Input is not an NxN matrix")\<close>.
\<close>

datatype error = StopIteration | ArrayValueError | UnpackValueError | NotSquare

record 'a snprank =
  SNPs :: "string list"
  GAIN :: "'a mat"

datatype 'a line = Header "string list" | Row string 'a 'a

section \<open>numpy operations used by the program\<close>

primrec from_nat :: "nat \<Rightarrow> 'a::{zero,one,plus}" where
  "from_nat 0 = 0"
| "from_nat (Suc n) = from_nat n + 1"

definition np_sum :: "'a::{zero,plus} vec \<Rightarrow> 'a" where
  "np_sum xs = foldr (+) xs 0"

definition ncols :: "'a mat \<Rightarrow> nat" where
  "ncols M = (case M of [] \<Rightarrow> 0 | row # _ \<Rightarrow> length row)"

definition column :: "'a mat \<Rightarrow> nat \<Rightarrow> 'a vec" where
  "column M j = map (\<lambda>row. row ! j) M"

definition shape :: "'a mat \<Rightarrow> error + nat \<times> nat" where
  "shape M = (case M of [] \<Rightarrow> Inl UnpackValueError | row # _ \<Rightarrow> Inr (length M, length row))"

definition sum_axis0 :: "'a::{zero,plus} mat \<Rightarrow> 'a vec" where
  "sum_axis0 M = map (\<lambda>j. np_sum (column M j)) [0..<ncols M]"

definition nonzero :: "'a::zero vec \<Rightarrow> nat list" where
  "nonzero v = filter (\<lambda>i. v ! i \<noteq> 0) [0..<length v]"

definition zeros :: "nat \<Rightarrow> nat \<Rightarrow> 'a::zero mat" where
  "zeros m n = replicate m (replicate n 0)"

definition ones :: "nat \<Rightarrow> 'a::one vec" where
  "ones n = replicate n 1"

definition dot :: "'a::{zero,plus,times} mat \<Rightarrow> 'a mat \<Rightarrow> 'a mat" where
  "dot A B = map (\<lambda>row. map (\<lambda>j. np_sum (map2 (*) row (column B j))) [0..<ncols B]) A"

definition scalar_mult :: "'a::times \<Rightarrow> 'a mat \<Rightarrow> 'a mat" where
  "scalar_mult c M = map (map ((*) c)) M"

definition mat_div :: "'a::inverse mat \<Rightarrow> 'a \<Rightarrow> 'a mat" where
  "mat_div M c = map (map (\<lambda>x. x / c)) M"

definition mat_add :: "'a::plus mat \<Rightarrow> 'a mat \<Rightarrow> 'a mat" where
  "mat_add A B = map2 (map2 (+)) A B"

definition diagonal :: "'a mat \<Rightarrow> 'a vec" where
  "diagonal M = map (\<lambda>i. M ! i ! i) [0..<min (length M) (ncols M)]"

definition trace :: "'a::{zero,plus} mat \<Rightarrow> 'a" where
  "trace M = np_sum (diagonal M)"

definition reshape_col :: "'a vec \<Rightarrow> 'a mat" where
  "reshape_col v = map (\<lambda>x. [x]) v"

text \<open>
  \<open>C * v\<close> for a column \<open>C\<close> of shape \<open>(n,1)\<close> and a vector \<open>v\<close> of shape \<open>(n,)\<close>:
  numpy broadcasts both to \<open>(n,n)\<close>, entry \<open>[i][j] = C[i][0] * v[j]\<close>.
\<close>

definition broadcast_mult :: "'a::times mat \<Rightarrow> 'a vec \<Rightarrow> 'a mat" where
  "broadcast_mult C v = map (\<lambda>c. map (\<lambda>t. c ! 0 * t) v) C"

section \<open>The rank engine\<close>

text \<open>\<open>normalize(xs) = xs/sum(xs)\<close>, where \<open>sum\<close> is numpy's sum over all entries.\<close>

definition normalize_np :: "'a::{zero,plus,inverse} mat \<Rightarrow> 'a mat" where
  "normalize_np xs = mat_div xs (np_sum (concat xs))"

text \<open>\<open>threshold = 10**(-4)\<close>\<close>

definition threshold :: "'a::{zero,one,plus,times,inverse,power}" where
  "threshold = 1 / (from_nat 10) ^ 4"

text \<open>\<open>all( abs(r-r_old) < threshold )\<close>\<close>

definition converged :: "'a::{zero,one,plus,minus,times,inverse,power,abs,ord} mat \<Rightarrow> 'a mat \<Rightarrow> bool" where
  "converged r r_old = list_all (\<lambda>(a, b). \<bar>a - b\<bar> < threshold) (zip (concat r) (concat r_old))"

text \<open>
  The loop \<open>while True: r_old, r = r, normalize(dot(T,r)); if all(...): break\<close>.
  It has no iteration bound; \<open>None\<close> is the run that never leaves the loop.
\<close>

partial_function (option) power_loop ::
  "'a::{zero,one,plus,minus,times,inverse,power,abs,ord} mat \<Rightarrow> 'a mat \<Rightarrow> 'a mat option" where
  "power_loop T r =
     (if converged (normalize_np (dot T r)) r then Some (normalize_np (dot T r))
      else power_loop T (normalize_np (dot T r)))"

text \<open>
  The loop \<open>for i in colsum_nzidx: D[i][i] = 1/colsum[i]; T_nz[i] = 1 - gamma\<close>,
  run on \<open>D = zeros((n,n))\<close> and \<open>T_nz = ones(n)\<close>. Every index written is below
  \<open>n\<close>, so no write is out of range.
\<close>

definition fill_step :: "'a::{one,minus,inverse} \<Rightarrow> 'a vec \<Rightarrow> nat \<Rightarrow> 'a mat \<times> 'a vec \<Rightarrow> 'a mat \<times> 'a vec" where
  "fill_step gamma colsum i = (\<lambda>(D, T_nz). (D[i := (D ! i)[i := 1 / colsum ! i]], T_nz[i := 1 - gamma]))"

definition fill_D_T_nz :: "'a::{zero,one,plus,minus,inverse} \<Rightarrow> 'a mat \<Rightarrow> 'a mat \<times> 'a vec" where
  "fill_D_T_nz gamma G =
     (let n = ncols G;
          colsum = sum_axis0 G;
          colsum_nzidx = nonzero colsum
      in fold (fill_step gamma colsum) colsum_nzidx (zeros n n, ones n))"

text \<open>
  The transition matrix. With \<open>usegpu\<close> the product \<open>G \<cdot> D\<close> comes from the CUDAMat
  library, which is not part of the program: it is the parameter \<open>cm_dot\<close>.
\<close>

definition transition ::
  "('a mat \<Rightarrow> 'a mat \<Rightarrow> 'a mat) \<Rightarrow> 'a::{zero,one,plus,minus,times,inverse} \<Rightarrow> bool \<Rightarrow> 'a mat \<Rightarrow> 'a mat" where
  "transition cm_dot gamma usegpu G =
     (let (D, T_nz) = fill_D_T_nz gamma G;
          GD_prod = (if usegpu then cm_dot G D else dot G D)
      in mat_add (scalar_mult gamma GD_prod)
                 (mat_div (broadcast_mult (reshape_col (diagonal G)) T_nz) (trace G)))"

text \<open>\<open>r = (ones(n)).reshape(n,1)/n\<close>\<close>

definition r_init :: "nat \<Rightarrow> 'a::{zero,one,plus,inverse} mat" where
  "r_init n = mat_div (reshape_col (ones n)) (from_nat n)"

text \<open>
  \<open>calculate_snprank\<close>: \<open>Inl e\<close> is the exception \<open>e\<close>, \<open>Inr None\<close> the run that never
  returns, \<open>Inr (Some (r, ig))\<close> the returned pair \<open>r.reshape(1,n)[0], GAIN.diagonal()\<close>.
\<close>

definition calculate_snprank ::
  "('a mat \<Rightarrow> 'a mat \<Rightarrow> 'a mat) \<Rightarrow> 'a::{zero,one,plus,minus,times,inverse,power,abs,ord} snprank
     \<Rightarrow> 'a \<Rightarrow> bool \<Rightarrow> error + ('a vec \<times> 'a vec) option" where
  "calculate_snprank cm_dot self gamma usegpu =
     (case shape (GAIN self) of
        Inl e \<Rightarrow> Inl e
      | Inr (m, n) \<Rightarrow>
          if m \<noteq> n then Inl NotSquare
          else Inr (map_option (\<lambda>r. (concat r, diagonal (GAIN self)))
                     (power_loop (transition cm_dot gamma usegpu (GAIN self)) (r_init n))))"

section \<open>The loader and the formatter\<close>

text \<open>
  \<open>array(rows, dtype=float64)\<close> on the records of the csv reader. The conversion of
  one token, Python's \<open>float\<close>, is the parameter \<open>to_float\<close> (\<open>None\<close> where it raises).
\<close>

definition np_array :: "(string \<Rightarrow> 'a option) \<Rightarrow> string list list \<Rightarrow> error + 'a mat" where
  "np_array to_float rows =
     (if list_ex (\<lambda>row. length row \<noteq> length (hd rows)) rows then Inl ArrayValueError
      else if list_ex (list_ex (\<lambda>t. to_float t = None)) rows then Inl ArrayValueError
      else Inr (map (map (\<lambda>t. the (to_float t))) rows))"

text \<open>\<open>SNPrank.__init__\<close>: the first record is the list of names, the rest the matrix.\<close>

definition init :: "(string \<Rightarrow> 'a option) \<Rightarrow> string list list \<Rightarrow> error + 'a snprank" where
  "init to_float records =
     (case records of
        [] \<Rightarrow> Inl StopIteration
      | header # body \<Rightarrow>
          (case np_array to_float body of
             Inl e \<Rightarrow> Inl e
           | Inr G \<Rightarrow> Inr \<lparr>SNPs = header, GAIN = G\<rparr>))"

text \<open>
  \<open>sorted(xs, key=..., reverse=True)\<close>: CPython reverses the list, sorts it with its
  stable sort, and reverses the result. The stable sort is \<^const>\<open>sort_key\<close>.
\<close>

definition sorted_reverse :: "('b \<Rightarrow> 'k::linorder) \<Rightarrow> 'b list \<Rightarrow> 'b list" where
  "sorted_reverse key xs = rev (sort_key key (rev xs))"

definition zip3 :: "'a list \<Rightarrow> 'b list \<Rightarrow> 'c list \<Rightarrow> ('a \<times> 'b \<times> 'c) list" where
  "zip3 xs ys zs = zip xs (zip ys zs)"

text \<open>
  \<open>print_to_file\<close>: the header row, then one row per sorted triple. A \<open>Row\<close> holds the
  three values that \<open>"%s\t%.6f\t%.6f\n"\<close> formats.
\<close>

definition print_to_file :: "string list \<Rightarrow> 'a::linorder vec \<Rightarrow> 'a vec \<Rightarrow> 'a line list" where
  "print_to_file names snp_rank ig =
     (let sort_temp = sorted_reverse (\<lambda>item. fst (snd item)) (zip3 names snp_rank ig)
      in Header [''SNP'', ''SNPrank'', ''IG'']
         # map (\<lambda>(name, score, g). Row name score g) sort_temp)"

text \<open>
  \<open>main\<close> from the records of the input to the lines of the output; opening and closing
  the files and parsing the options are outside the model.
\<close>

definition main ::
  "(string \<Rightarrow> 'a option) \<Rightarrow> ('a mat \<Rightarrow> 'a mat \<Rightarrow> 'a mat)
     \<Rightarrow> 'a::{zero,one,plus,minus,times,inverse,power,abs,linorder} \<Rightarrow> bool
     \<Rightarrow> string list list \<Rightarrow> error + 'a line list option" where
  "main to_float cm_dot gamma usegpu records =
     (case init to_float records of
        Inl e \<Rightarrow> Inl e
      | Inr full_data \<Rightarrow>
          (case calculate_snprank cm_dot full_data gamma usegpu of
             Inl e \<Rightarrow> Inl e
           | Inr None \<Rightarrow> Inr None
           | Inr (Some (snprank, IG)) \<Rightarrow>
               Inr (Some (print_to_file (SNPs full_data) snprank IG))))"

section \<open>Predicates used in the statements\<close>

text \<open>A matrix with \<open>n\<close> rows, each of \<open>n\<close> entries.\<close>

definition square :: "nat \<Rightarrow> 'a mat \<Rightarrow> bool" where
  "square n M \<longleftrightarrow> length M = n \<and> list_all (\<lambda>row. length row = n) M"

text \<open>The data rows of an output, in the order they are written.\<close>

definition rows_of :: "'a line list \<Rightarrow> (string \<times> 'a \<times> 'a) list" where
  "rows_of ls = concat (map (\<lambda>l. case l of Header _ \<Rightarrow> [] | Row n s g \<Rightarrow> [(n, s, g)]) ls)"

text \<open>
  The rank vector after \<open>k\<close> passes through the body of the loop, started at \<open>r\<close>:
  each pass replaces \<open>r\<close> by \<open>normalize(dot(T,r))\<close>.
\<close>

definition iterates ::
  "'a::{zero,plus,times,inverse} mat \<Rightarrow> 'a mat \<Rightarrow> nat \<Rightarrow> 'a mat" where
  "iterates T r k = ((\<lambda>r. normalize_np (dot T r)) ^^ k) r"

text \<open>A column of shape \<open>(n,1)\<close>.\<close>

definition colvec :: "nat \<Rightarrow> 'a mat \<Rightarrow> bool" where
  "colvec n r \<longleftrightarrow> length r = n \<and> list_all (\<lambda>row. length row = 1) r"

text \<open>
  What the statements ask of the CUDAMat product when \<open>usegpu\<close> is set: on \<open>G\<close> and
  \<open>D\<close> it returns the matrix that \<open>dot\<close> returns.
\<close>

definition cm_dot_is_dot ::
  "('a mat \<Rightarrow> 'a mat \<Rightarrow> 'a mat) \<Rightarrow> 'a::{zero,one,plus,minus,times,inverse} \<Rightarrow> bool \<Rightarrow> 'a mat \<Rightarrow> bool" where
  "cm_dot_is_dot cm_dot gamma usegpu G \<longleftrightarrow>
     (usegpu \<longrightarrow> cm_dot G (fst (fill_D_T_nz gamma G)) = dot G (fst (fill_D_T_nz gamma G)))"

text \<open>
  A conversion of tokens for the examples: it accepts the unsigned decimal integers,
  which Python's \<open>float\<close> accepts with the same value, and nothing else.
\<close>

definition float_of_digits :: "string \<Rightarrow> real option" where
  "float_of_digits s =
     (if s \<noteq> [] \<and> list_all (\<lambda>c. c \<in> set ''0123456789'') s
      then Some (real (foldl (\<lambda>a c. 10 * a + (of_char c - 48)) 0 s))
      else None)"

section \<open>Floating-point entries with the IEEE special values\<close>

text \<open>
  numpy does not raise on a division by zero: with the default error state it warns and
  returns \<open>inf\<close>, \<open>-inf\<close> or \<open>nan\<close>. The type \<open>fl\<close> adds these three values to the
  real numbers; on finite operands with a finite result the operations are those of
  \<^typ>\<open>real\<close> (no rounding, no overflow), and on the other operands they follow IEEE 754
  with a single, positive zero. A comparison with \<open>nan\<close> is false.
\<close>

datatype fl = Fin real | PInf | NInf | NaN

fun is_fin :: "fl \<Rightarrow> bool" where
  "is_fin (Fin a) = True"
| "is_fin x = False"

instantiation fl :: "{zero,one,plus,minus,times,inverse,abs,ord}"
begin

definition zero_fl :: fl where
  "zero_fl = Fin 0"

definition one_fl :: fl where
  "one_fl = Fin 1"

fun plus_fl :: "fl \<Rightarrow> fl \<Rightarrow> fl" where
  "plus_fl (Fin a) (Fin b) = Fin (a + b)"
| "plus_fl NaN y = NaN"
| "plus_fl x NaN = NaN"
| "plus_fl PInf NInf = NaN"
| "plus_fl NInf PInf = NaN"
| "plus_fl PInf y = PInf"
| "plus_fl x PInf = PInf"
| "plus_fl NInf y = NInf"
| "plus_fl x NInf = NInf"

fun minus_fl :: "fl \<Rightarrow> fl \<Rightarrow> fl" where
  "minus_fl (Fin a) (Fin b) = Fin (a - b)"
| "minus_fl NaN y = NaN"
| "minus_fl x NaN = NaN"
| "minus_fl PInf PInf = NaN"
| "minus_fl NInf NInf = NaN"
| "minus_fl PInf y = PInf"
| "minus_fl x PInf = NInf"
| "minus_fl NInf y = NInf"
| "minus_fl x NInf = PInf"

fun times_fl :: "fl \<Rightarrow> fl \<Rightarrow> fl" where
  "times_fl (Fin a) (Fin b) = Fin (a * b)"
| "times_fl NaN y = NaN"
| "times_fl x NaN = NaN"
| "times_fl PInf (Fin b) = (if b = 0 then NaN else if 0 < b then PInf else NInf)"
| "times_fl NInf (Fin b) = (if b = 0 then NaN else if 0 < b then NInf else PInf)"
| "times_fl (Fin a) PInf = (if a = 0 then NaN else if 0 < a then PInf else NInf)"
| "times_fl (Fin a) NInf = (if a = 0 then NaN else if 0 < a then NInf else PInf)"
| "times_fl PInf PInf = PInf"
| "times_fl PInf NInf = NInf"
| "times_fl NInf PInf = NInf"
| "times_fl NInf NInf = PInf"

fun divide_fl :: "fl \<Rightarrow> fl \<Rightarrow> fl" where
  "divide_fl (Fin a) (Fin b) =
     (if b = 0 then (if a = 0 then NaN else if 0 < a then PInf else NInf) else Fin (a / b))"
| "divide_fl NaN y = NaN"
| "divide_fl x NaN = NaN"
| "divide_fl (Fin a) PInf = Fin 0"
| "divide_fl (Fin a) NInf = Fin 0"
| "divide_fl PInf (Fin b) = (if 0 \<le> b then PInf else NInf)"
| "divide_fl NInf (Fin b) = (if 0 \<le> b then NInf else PInf)"
| "divide_fl PInf y = NaN"
| "divide_fl NInf y = NaN"

definition inverse_fl :: "fl \<Rightarrow> fl" where
  "inverse_fl x = divide (Fin 1) x"

fun abs_fl :: "fl \<Rightarrow> fl" where
  "abs_fl (Fin a) = Fin \<bar>a\<bar>"
| "abs_fl PInf = PInf"
| "abs_fl NInf = PInf"
| "abs_fl NaN = NaN"

fun less_fl :: "fl \<Rightarrow> fl \<Rightarrow> bool" where
  "less_fl (Fin a) (Fin b) \<longleftrightarrow> a < b"
| "less_fl NaN y \<longleftrightarrow> False"
| "less_fl x NaN \<longleftrightarrow> False"
| "less_fl PInf y \<longleftrightarrow> False"
| "less_fl x NInf \<longleftrightarrow> False"
| "less_fl x PInf \<longleftrightarrow> True"
| "less_fl NInf y \<longleftrightarrow> True"

fun less_eq_fl :: "fl \<Rightarrow> fl \<Rightarrow> bool" where
  "less_eq_fl (Fin a) (Fin b) \<longleftrightarrow> a \<le> b"
| "less_eq_fl NaN y \<longleftrightarrow> False"
| "less_eq_fl x NaN \<longleftrightarrow> False"
| "less_eq_fl x PInf \<longleftrightarrow> True"
| "less_eq_fl NInf y \<longleftrightarrow> True"
| "less_eq_fl PInf y \<longleftrightarrow> False"
| "less_eq_fl x NInf \<longleftrightarrow> False"

instance ..

end

instance fl :: power ..

text \<open>The conversion of tokens for the examples, with its values in \<open>fl\<close>.\<close>

definition fl_of_digits :: "string \<Rightarrow> fl option" where
  "fl_of_digits s = map_option Fin (float_of_digits s)"

section \<open>The loaded object and its arrays in a store\<close>

text \<open>
  numpy arrays and Python lists are mutable objects, and the attributes \<open>self.SNPs\<close>
  and \<open>self.GAIN\<close> hold references to them. For the statements about what a run leaves
  unchanged, the objects live in a store: an address is a natural number, \<open>fresh\<close> is
  the first address not yet used, and creating an object takes that address. The
  assignments \<open>D[i][i] = ...\<close> and \<open>T_nz[i] = ...\<close> are the only writes into an existing
  object in the program; they are writes into the store. Arrays that are never written
  after they are created (\<open>colsum\<close>, \<open>T\<close>, \<open>r\<close>, \<open>r_old\<close>) are kept as values.
\<close>

type_synonym addr = nat

record 'a store =
  ndarrays :: "addr \<Rightarrow> 'a mat"
  vectors :: "addr \<Rightarrow> 'a vec"
  pylists :: "addr \<Rightarrow> string list"
  fresh :: addr

record snprank_obj =
  SNPs_at :: addr
  GAIN_at :: addr


definition new_ndarray :: "'a mat \<Rightarrow> 'a store \<Rightarrow> addr \<times> 'a store" where
  "new_ndarray M s = (fresh s, s\<lparr>ndarrays := (ndarrays s)(fresh s := M), fresh := Suc (fresh s)\<rparr>)"

definition new_vector :: "'a vec \<Rightarrow> 'a store \<Rightarrow> addr \<times> 'a store" where
  "new_vector v s = (fresh s, s\<lparr>vectors := (vectors s)(fresh s := v), fresh := Suc (fresh s)\<rparr>)"

definition new_pylist :: "string list \<Rightarrow> 'a store \<Rightarrow> addr \<times> 'a store" where
  "new_pylist xs s = (fresh s, s\<lparr>pylists := (pylists s)(fresh s := xs), fresh := Suc (fresh s)\<rparr>)"

text \<open>\<open>A[i][j] = x\<close> on the two-dimensional array at address \<open>a\<close>.\<close>

definition setitem2 :: "addr \<Rightarrow> nat \<Rightarrow> nat \<Rightarrow> 'a \<Rightarrow> 'a store \<Rightarrow> 'a store" where
  "setitem2 a i j x s = s\<lparr>ndarrays := (ndarrays s)(a := (ndarrays s a)[i := (ndarrays s a ! i)[j := x]])\<rparr>"

text \<open>\<open>v[i] = x\<close> on the one-dimensional array at address \<open>a\<close>.\<close>

definition setitem1 :: "addr \<Rightarrow> nat \<Rightarrow> 'a \<Rightarrow> 'a store \<Rightarrow> 'a store" where
  "setitem1 a i x s = s\<lparr>vectors := (vectors s)(a := (vectors s a)[i := x])\<rparr>"

text \<open>\<open>SNPrank.__init__\<close>: the list of names and the array are new objects.\<close>

definition init_store ::
  "(string \<Rightarrow> 'a option) \<Rightarrow> string list list \<Rightarrow> 'a store \<Rightarrow> error + snprank_obj \<times> 'a store" where
  "init_store to_float records s =
     (case records of
        [] \<Rightarrow> Inl StopIteration
      | header # body \<Rightarrow>
          (let (names, s1) = new_pylist header s in
           case np_array to_float body of
             Inl e \<Rightarrow> Inl e
           | Inr G \<Rightarrow>
               (let (g, s2) = new_ndarray G s1
                in Inr (\<lparr>SNPs_at = names, GAIN_at = g\<rparr>, s2))))"

text \<open>
  \<open>calculate_snprank\<close>, statement by statement. Every read of \<open>self.GAIN\<close> looks the
  array up in the store at the time of the read. The result is the returned pair and
  the store the call leaves behind.
\<close>

definition calculate_snprank_store ::
  "('a mat \<Rightarrow> 'a mat \<Rightarrow> 'a mat) \<Rightarrow> snprank_obj
     \<Rightarrow> 'a::{zero,one,plus,minus,times,inverse,power,abs,ord} \<Rightarrow> bool \<Rightarrow> 'a store
     \<Rightarrow> error + (('a vec \<times> 'a vec) \<times> 'a store) option" where
  "calculate_snprank_store cm_dot self gamma usegpu s =
     (case shape (ndarrays s (GAIN_at self)) of
        Inl e \<Rightarrow> Inl e
      | Inr (m, n) \<Rightarrow>
          if m \<noteq> n then Inl NotSquare
          else
            (let colsum = sum_axis0 (ndarrays s (GAIN_at self));
                 colsum_nzidx = nonzero colsum;
                 (D, s1) = new_ndarray (zeros n n) s;
                 (T_nz, s2) = new_vector (ones n) s1;
                 s3 = fold (\<lambda>i s. setitem1 T_nz i (1 - gamma) (setitem2 D i i (1 / colsum ! i) s))
                        colsum_nzidx s2;
                 GD_prod = (if usegpu then cm_dot (ndarrays s3 (GAIN_at self)) (ndarrays s3 D)
                            else dot (ndarrays s3 (GAIN_at self)) (ndarrays s3 D));
                 T = mat_add (scalar_mult gamma GD_prod)
                       (mat_div (broadcast_mult (reshape_col (diagonal (ndarrays s3 (GAIN_at self))))
                                   (vectors s3 T_nz))
                                (trace (ndarrays s3 (GAIN_at self))))
             in Inr (map_option (\<lambda>r. ((concat r, diagonal (ndarrays s3 (GAIN_at self))), s3))
                       (power_loop T (r_init n)))))"

text \<open>
  \<open>main\<close> on the store: \<open>print_to_file\<close> gets the list that \<open>full_data.SNPs\<close> refers
  to when it is called, and writes into no object.
\<close>

definition main_store ::
  "(string \<Rightarrow> 'a option) \<Rightarrow> ('a mat \<Rightarrow> 'a mat \<Rightarrow> 'a mat)
     \<Rightarrow> 'a::{zero,one,plus,minus,times,inverse,power,abs,linorder} \<Rightarrow> bool
     \<Rightarrow> string list list \<Rightarrow> 'a store \<Rightarrow> error + ('a line list \<times> 'a store) option" where
  "main_store to_float cm_dot gamma usegpu records s =
     (case init_store to_float records s of
        Inl e \<Rightarrow> Inl e
      | Inr (full_data, s1) \<Rightarrow>
          (case calculate_snprank_store cm_dot full_data gamma usegpu s1 of
             Inl e \<Rightarrow> Inl e
           | Inr None \<Rightarrow> Inr None
           | Inr (Some ((snprank, IG), s2)) \<Rightarrow>
               Inr (Some (print_to_file (pylists s2 (SNPs_at full_data)) snprank IG, s2))))"

text \<open>
  The store a call of \<open>calculate_snprank\<close> leaves behind when the object's array is at
  address \<open>g\<close>: two new objects, \<open>D\<close> and \<open>T_nz\<close> with the values the loop has written
  into them.
\<close>

definition store_after :: "'a::{zero,one,plus,minus,inverse} \<Rightarrow> addr \<Rightarrow> 'a store \<Rightarrow> 'a store" where
  "store_after gamma g s =
     s\<lparr>ndarrays := (ndarrays s)(fresh s := fst (fill_D_T_nz gamma (ndarrays s g))),
       vectors := (vectors s)(Suc (fresh s) := snd (fill_D_T_nz gamma (ndarrays s g))),
       fresh := Suc (Suc (fresh s))\<rparr>"

section \<open>Shapes and the degree-normalisation loop\<close>

lemma square_nth: "square n M \<Longrightarrow> i < n \<Longrightarrow> length (M ! i) = n"
  by (simp add: square_def list_all_length)

lemma square_length: "square n M \<Longrightarrow> length M = n"
  by (simp add: square_def)

lemma square_ncols: "square n M \<Longrightarrow> ncols M = n"
  by (cases M) (auto simp: square_def ncols_def)

lemma square_zeros: "square n (zeros n n)"
  by (simp add: square_def zeros_def list_all_length)

lemma length_sum_axis0: "length (sum_axis0 M) = ncols M"
  by (simp add: sum_axis0_def)

lemma nth_sum_axis0: "j < ncols M \<Longrightarrow> sum_axis0 M ! j = np_sum (column M j)"
  by (simp add: sum_axis0_def)

lemma set_nonzero: "set (nonzero v) = {i. i < length v \<and> v ! i \<noteq> 0}"
  by (auto simp: nonzero_def)

lemma fold_fill_step:
  assumes "\<forall>i\<in>set idx. i < n" and "square n D0" and "length T0 = n"
  shows "square n (fst (fold (fill_step gamma cs) idx (D0, T0)))
       \<and> length (snd (fold (fill_step gamma cs) idx (D0, T0))) = n
       \<and> (\<forall>i<n. \<forall>j<n. fst (fold (fill_step gamma cs) idx (D0, T0)) ! i ! j
              = (if i = j \<and> i \<in> set idx then 1 / cs ! i else D0 ! i ! j))
       \<and> (\<forall>j<n. snd (fold (fill_step gamma cs) idx (D0, T0)) ! j
              = (if j \<in> set idx then 1 - gamma else T0 ! j))"
  using assms
proof (induction idx arbitrary: D0 T0)
  case Nil
  then show ?case by simp
next
  case (Cons a idx)
  let ?D1 = "D0[a := (D0 ! a)[a := 1 / cs ! a]]"
  let ?T1 = "T0[a := 1 - gamma]"
  have a: "a < n" using Cons.prems(1) by simp
  have sq1: "square n ?D1"
    using Cons.prems(2) a
    by (auto simp: square_def list_all_length nth_list_update)
  have len1: "length ?T1 = n" using Cons.prems(3) by simp
  have step: "fold (fill_step gamma cs) (a # idx) (D0, T0) = fold (fill_step gamma cs) idx (?D1, ?T1)"
    by (simp add: fill_step_def)
  have idx: "\<forall>i\<in>set idx. i < n" using Cons.prems(1) by simp
  note IH = Cons.IH [OF idx sq1 len1]
  have D1: "\<And>i j. i < n \<Longrightarrow> j < n \<Longrightarrow> ?D1 ! i ! j = (if i = j \<and> i = a then 1 / cs ! a else D0 ! i ! j)"
    using Cons.prems(2) a by (auto simp: square_def list_all_length nth_list_update)
  have T1: "\<And>j. j < n \<Longrightarrow> ?T1 ! j = (if j = a then 1 - gamma else T0 ! j)"
    using Cons.prems(3) by (auto simp: nth_list_update)
  show ?case
    unfolding step using IH D1 T1 by auto
qed

lemma fill_D_T_nz_props:
  fixes G :: "'a::{zero,one,plus,minus,inverse} mat"
  defines "n \<equiv> ncols G"
  shows "square n (fst (fill_D_T_nz gamma G))"
    and "length (snd (fill_D_T_nz gamma G)) = n"
    and "i < n \<Longrightarrow> j < n \<Longrightarrow> fst (fill_D_T_nz gamma G) ! i ! j
           = (if i = j \<and> sum_axis0 G ! i \<noteq> 0 then 1 / sum_axis0 G ! i else 0)"
    and "j < n \<Longrightarrow> snd (fill_D_T_nz gamma G) ! j = (if sum_axis0 G ! j \<noteq> 0 then 1 - gamma else 1)"
proof -
  let ?cs = "sum_axis0 G"
  have idx: "\<forall>i\<in>set (nonzero ?cs). i < n"
    by (simp add: set_nonzero length_sum_axis0 n_def)
  have T0: "length (ones n :: 'a vec) = n" by (simp add: ones_def)
  note F = fold_fill_step [OF idx square_zeros T0, of gamma ?cs]
  have unf: "fill_D_T_nz gamma G = fold (fill_step gamma ?cs) (nonzero ?cs) (zeros n n, ones n)"
    by (simp add: fill_D_T_nz_def Let_def n_def)
  show "square n (fst (fill_D_T_nz gamma G))" unfolding unf using F by blast
  show "length (snd (fill_D_T_nz gamma G)) = n" unfolding unf using F by blast
  show "fst (fill_D_T_nz gamma G) ! i ! j
           = (if i = j \<and> sum_axis0 G ! i \<noteq> 0 then 1 / sum_axis0 G ! i else 0)" if "i < n" "j < n"
    unfolding unf using F that
    by (auto simp: set_nonzero length_sum_axis0 n_def zeros_def)
  show "snd (fill_D_T_nz gamma G) ! j = (if sum_axis0 G ! j \<noteq> 0 then 1 - gamma else 1)" if "j < n"
    unfolding unf using F that
    by (auto simp: set_nonzero length_sum_axis0 n_def ones_def)
qed

text \<open>
  C2. A column \<open>j\<close> is in \<open>colsum_nzidx\<close> exactly when its column sum is different from
  zero, by equality on the entries and with no tolerance. For a column whose sum is zero,
  \<open>D[j][j] = 0\<close> and \<open>T_nz[j] = 1\<close>; for a column whose sum is not zero,
  \<open>D[j][j] = 1/colsum[j]\<close> and \<open>T_nz[j] = 1 - gamma\<close>; \<open>D\<close> is zero off the diagonal.
  This holds for every type of entries, so also for floating-point numbers.
\<close>

theorem dangling_columns:
  fixes G :: "'a::{zero,one,plus,minus,inverse} mat"
  assumes "square n G" and "j < n"
  shows "(j \<in> set (nonzero (sum_axis0 G)) \<longleftrightarrow> sum_axis0 G ! j \<noteq> 0)
       \<and> (sum_axis0 G ! j = 0 \<longrightarrow>
            fst (fill_D_T_nz gamma G) ! j ! j = 0 \<and> snd (fill_D_T_nz gamma G) ! j = 1)
       \<and> (sum_axis0 G ! j \<noteq> 0 \<longrightarrow>
            fst (fill_D_T_nz gamma G) ! j ! j = 1 / sum_axis0 G ! j
          \<and> snd (fill_D_T_nz gamma G) ! j = 1 - gamma)
       \<and> (\<forall>i<n. i \<noteq> j \<longrightarrow> fst (fill_D_T_nz gamma G) ! i ! j = 0)"
proof -
  have n: "ncols G = n" using assms(1) by (rule square_ncols)
  show ?thesis
    using assms(2) fill_D_T_nz_props(3,4) [where G = G and gamma = gamma]
    by (simp add: n set_nonzero length_sum_axis0)
qed

theorem dangling_columns_witness:
  "square 2 [[1, 0], [2, 0 :: real]]
   \<and> sum_axis0 [[1, 0], [2, 0 :: real]] = [3, 0]
   \<and> fill_D_T_nz (85/100) [[1, 0], [2, 0 :: real]] = ([[1/3, 0], [0, 0]], [15/100, 1])
   \<and> (1 \<in> set (nonzero (sum_axis0 [[1, 0], [2, 0 :: real]])) \<longleftrightarrow> sum_axis0 [[1, 0], [2, 0 :: real]] ! 1 \<noteq> 0)"
  using dangling_columns [of 2 "[[1, 0], [2, 0 :: real]]" 1 "85/100"]
  by (simp add: square_def sum_axis0_def ncols_def column_def np_sum_def fill_D_T_nz_def
      nonzero_def fill_step_def zeros_def ones_def upt_conv_Cons numeral_2_eq_2)


section \<open>The transition matrix\<close>

lemma length_dot: "length (dot A B) = length A"
  by (simp add: dot_def)

lemma length_dot_nth: "i < length A \<Longrightarrow> length (dot A B ! i) = ncols B"
  by (simp add: dot_def)

lemma nth_dot:
  "i < length A \<Longrightarrow> j < ncols B \<Longrightarrow> dot A B ! i ! j = np_sum (map2 (*) (A ! i) (column B j))"
  by (simp add: dot_def)

lemma square_dot:
  assumes "square n A" and "square n B"
  shows "square n (dot A B)"
proof -
  have "ncols B = n" using assms(2) by (rule square_ncols)
  moreover have "length A = n" using assms(1) by (rule square_length)
  ultimately show ?thesis
    by (simp add: square_def list_all_length length_dot length_dot_nth)
qed

lemma nth_scalar_mult:
  "i < length M \<Longrightarrow> j < length (M ! i) \<Longrightarrow> scalar_mult c M ! i ! j = c * M ! i ! j"
  by (simp add: scalar_mult_def)

lemma square_scalar_mult: "square n M \<Longrightarrow> square n (scalar_mult c M)"
  by (simp add: square_def scalar_mult_def list_all_length)

lemma nth_mat_div:
  "i < length M \<Longrightarrow> j < length (M ! i) \<Longrightarrow> mat_div M c ! i ! j = M ! i ! j / c"
  by (simp add: mat_div_def)

lemma square_mat_div: "square n M \<Longrightarrow> square n (mat_div M c)"
  by (simp add: square_def mat_div_def list_all_length)

lemma nth_mat_add:
  "square n A \<Longrightarrow> square n B \<Longrightarrow> i < n \<Longrightarrow> j < n \<Longrightarrow> mat_add A B ! i ! j = A ! i ! j + B ! i ! j"
  by (simp add: mat_add_def square_def list_all_length)

lemma square_mat_add: "square n A \<Longrightarrow> square n B \<Longrightarrow> square n (mat_add A B)"
  by (simp add: mat_add_def square_def list_all_length)

lemma length_diagonal: "square n M \<Longrightarrow> length (diagonal M) = n"
  by (simp add: diagonal_def square_ncols square_length)

lemma nth_diagonal: "square n M \<Longrightarrow> i < n \<Longrightarrow> diagonal M ! i = M ! i ! i"
  by (simp add: diagonal_def square_ncols square_length)

lemma square_broadcast_mult:
  "length d = n \<Longrightarrow> length v = n \<Longrightarrow> square n (broadcast_mult (reshape_col d) v)"
  by (simp add: square_def broadcast_mult_def reshape_col_def list_all_length)

lemma nth_broadcast_mult:
  "i < length d \<Longrightarrow> j < length v \<Longrightarrow> broadcast_mult (reshape_col d) v ! i ! j = d ! i * v ! j"
  by (simp add: broadcast_mult_def reshape_col_def)

lemma transition_unfold:
  "transition cm_dot gamma usegpu G =
     mat_add (scalar_mult gamma (if usegpu then cm_dot G (fst (fill_D_T_nz gamma G))
                                 else dot G (fst (fill_D_T_nz gamma G))))
             (mat_div (broadcast_mult (reshape_col (diagonal G)) (snd (fill_D_T_nz gamma G))) (trace G))"
  by (simp add: transition_def Let_def split_beta)

lemma square_transition:
  assumes "square n G" and "cm_dot_is_dot cm_dot gamma usegpu G"
  shows "square n (transition cm_dot gamma usegpu G)"
proof -
  have n: "ncols G = n" using assms(1) by (rule square_ncols)
  have D: "square n (fst (fill_D_T_nz gamma G))" using fill_D_T_nz_props(1) [where gamma = gamma and G = G] by (simp add: n)
  have T: "length (snd (fill_D_T_nz gamma G)) = n" using fill_D_T_nz_props(2) [where gamma = gamma and G = G] by (simp add: n)
  show ?thesis
    unfolding transition_unfold using assms D T
    by (auto simp: cm_dot_is_dot_def intro!: square_mat_add square_scalar_mult square_mat_div
        square_broadcast_mult square_dot length_diagonal)
qed

lemma nth_transition:
  assumes "square n G" and "cm_dot_is_dot cm_dot gamma usegpu G"
    and "i < n" and "j < n"
  shows "transition cm_dot gamma usegpu G ! i ! j
       = gamma * np_sum (map2 (*) (G ! i) (column (fst (fill_D_T_nz gamma G)) j))
         + G ! i ! i * snd (fill_D_T_nz gamma G) ! j / trace G"
proof -
  let ?D = "fst (fill_D_T_nz gamma G)" and ?T = "snd (fill_D_T_nz gamma G)"
  have n: "ncols G = n" using assms(1) by (rule square_ncols)
  have D: "square n ?D" using fill_D_T_nz_props(1) [where gamma = gamma and G = G] by (simp add: n)
  have T: "length ?T = n" using fill_D_T_nz_props(2) [where gamma = gamma and G = G] by (simp add: n)
  have GD: "(if usegpu then cm_dot G ?D else dot G ?D) = dot G ?D" using assms(2) by (simp add: cm_dot_is_dot_def)
  have sqGD: "square n (dot G ?D)" using assms(1) D by (rule square_dot)
  have sq1: "square n (scalar_mult gamma (dot G ?D))" using sqGD by (rule square_scalar_mult)
  have sqB: "square n (broadcast_mult (reshape_col (diagonal G)) ?T)"
    using length_diagonal [OF assms(1)] T by (rule square_broadcast_mult)
  have sq2: "square n (mat_div (broadcast_mult (reshape_col (diagonal G)) ?T) (trace G))"
    using sqB by (rule square_mat_div)
  have e1: "scalar_mult gamma (dot G ?D) ! i ! j = gamma * np_sum (map2 (*) (G ! i) (column ?D j))"
    using assms(3,4) sqGD assms(1) D
    by (simp add: nth_scalar_mult nth_dot square_length square_nth square_ncols)
  have lenB: "length (broadcast_mult (reshape_col (diagonal G)) ?T) = n"
    using sqB by (rule square_length)
  have lenBi: "length (broadcast_mult (reshape_col (diagonal G)) ?T ! i) = n"
    using sqB assms(3) by (rule square_nth)
  have "mat_div (broadcast_mult (reshape_col (diagonal G)) ?T) (trace G) ! i ! j
      = broadcast_mult (reshape_col (diagonal G)) ?T ! i ! j / trace G"
    by (rule nth_mat_div) (simp_all add: lenB lenBi assms(3,4))
  also have "broadcast_mult (reshape_col (diagonal G)) ?T ! i ! j = diagonal G ! i * ?T ! j"
    by (rule nth_broadcast_mult) (simp_all add: length_diagonal [OF assms(1)] T assms(3,4))
  also have "diagonal G ! i = G ! i ! i"
    using assms(1,3) by (rule nth_diagonal)
  finally have e2: "mat_div (broadcast_mult (reshape_col (diagonal G)) ?T) (trace G) ! i ! j
          = G ! i ! i * ?T ! j / trace G" .
  have "mat_add (scalar_mult gamma (dot G ?D))
          (mat_div (broadcast_mult (reshape_col (diagonal G)) ?T) (trace G)) ! i ! j
      = scalar_mult gamma (dot G ?D) ! i ! j
        + mat_div (broadcast_mult (reshape_col (diagonal G)) ?T) (trace G) ! i ! j"
    using sq1 sq2 assms(3,4) by (rule nth_mat_add)
  then show ?thesis
    unfolding transition_unfold GD by (simp only: e1 e2)
qed

lemma np_sum_real: "np_sum (xs :: real list) = sum_list xs"
  by (induction xs) (simp_all add: np_sum_def)

lemma np_sum_map_upt: "np_sum (map f [0..<n]) = (\<Sum>k<n. (f k :: real))"
  by (simp add: np_sum_real interv_sum_list_conv_sum_set_nat atLeast0LessThan)

lemma np_sum_nth: "np_sum (xs :: real list) = (\<Sum>k<length xs. xs ! k)"
  by (simp add: np_sum_real sum_list_sum_nth atLeast0LessThan)

lemma np_sum_map2_column:
  assumes "length row = n" and "length M = n"
  shows "np_sum (map2 (*) row (column M j)) = (\<Sum>k<n. (row ! k :: real) * M ! k ! j)"
proof -
  have "np_sum (map2 (*) row (column M j)) = (\<Sum>k<n. map2 (*) row (column M j) ! k)"
    using assms by (simp add: np_sum_nth column_def)
  also have "\<dots> = (\<Sum>k<n. row ! k * M ! k ! j)"
    using assms by (intro sum.cong) (simp_all add: column_def)
  finally show ?thesis .
qed

lemma trace_real: "square n G \<Longrightarrow> trace G = (\<Sum>i<n. (G ! i ! i :: real))"
  by (simp add: trace_def diagonal_def square_ncols square_length np_sum_map_upt)

lemma colsum_real: "square n G \<Longrightarrow> j < n \<Longrightarrow> sum_axis0 G ! j = (\<Sum>i<n. (G ! i ! j :: real))"
  by (simp add: nth_sum_axis0 square_ncols np_sum_nth column_def square_length)

text \<open>
  C1. For a square matrix \<open>G\<close> with trace different from zero and any \<open>gamma\<close>, the
  transition matrix is \<open>gamma * (G \<cdot> D) + outer(diag(G), T_nz) / trace\<close> entry by entry:
  \<open>T[i][j] = gamma * (\<Sum>k. G[i][k] * D[k][j]) + G[i][i] * T_nz[j] / trace\<close>, with \<open>D\<close>
  and \<open>T_nz\<close> the matrix and vector the loop over the nonzero column sums builds.
  Entries are read as real numbers (no rounding). On the GPU branch the statement is
  about a library product that returns what \<open>dot\<close> returns.
\<close>

theorem transition_entry:
  fixes G :: "real mat"
  assumes "square n G" and "trace G \<noteq> 0"
    and "cm_dot_is_dot cm_dot gamma usegpu G"
    and "i < n" and "j < n"
  shows "transition cm_dot gamma usegpu G ! i ! j
       = gamma * (\<Sum>k<n. G ! i ! k * fst (fill_D_T_nz gamma G) ! k ! j)
         + G ! i ! i * snd (fill_D_T_nz gamma G) ! j / trace G"
proof -
  have "square n (fst (fill_D_T_nz gamma G))"
    using fill_D_T_nz_props(1) [where gamma = gamma and G = G] square_ncols [OF assms(1)] by simp
  then have "np_sum (map2 (*) (G ! i) (column (fst (fill_D_T_nz gamma G)) j))
           = (\<Sum>k<n. G ! i ! k * fst (fill_D_T_nz gamma G) ! k ! j)"
    using assms(1,4) by (intro np_sum_map2_column) (simp_all add: square_nth square_length)
  then show ?thesis
    using nth_transition [OF assms(1,3,4,5)] by simp
qed


theorem transition_entry_witness:
  "square 2 [[2, 1], [1, 2 :: real]] \<and> trace [[2, 1], [1, 2 :: real]] = 4
   \<and> fill_D_T_nz (85/100) [[2, 1], [1, 2 :: real]] = ([[1/3, 0], [0, 1/3]], [15/100, 15/100])
   \<and> transition dot (85/100) False [[2, 1], [1, 2 :: real]] ! 0 ! 1
       = 85/100 * (\<Sum>k<2. [[2, 1], [1, 2 :: real]] ! 0 ! k * [[1/3, 0], [0, 1/3 :: real]] ! k ! 1)
         + 2 * (15/100) / 4
   \<and> transition dot (85/100) False [[2, 1], [1, 2 :: real]]
       = [[77/120, 43/120], [43/120, 77/120]]"
proof -
  have sq: "square 2 [[2, 1], [1, 2 :: real]]" by (simp add: square_def)
  have tr: "trace [[2, 1], [1, 2 :: real]] = 4"
    by (simp add: trace_def diagonal_def ncols_def np_sum_def upt_conv_Cons numeral_2_eq_2)
  have fl: "fill_D_T_nz (85/100) [[2, 1], [1, 2 :: real]] = ([[1/3, 0], [0, 1/3]], [15/100, 15/100])"
    by (simp add: sum_axis0_def ncols_def column_def np_sum_def fill_D_T_nz_def
      nonzero_def fill_step_def zeros_def ones_def upt_conv_Cons numeral_2_eq_2)
  have T: "transition dot (85/100) False [[2, 1], [1, 2 :: real]] = [[77/120, 43/120], [43/120, 77/120]]"
    unfolding transition_def fl tr
    by (simp add: dot_def mat_add_def scalar_mult_def mat_div_def
        broadcast_mult_def reshape_col_def diagonal_def ncols_def column_def np_sum_def
        upt_conv_Cons numeral_2_eq_2)
  have tr0: "trace [[2, 1], [1, 2 :: real]] \<noteq> 0" using tr by simp
  show ?thesis
    using transition_entry [OF sq tr0, where usegpu = False and cm_dot = dot and gamma = "85/100" and i = 0 and j = 1] sq tr fl T
    by (simp add: cm_dot_is_dot_def)
qed


section \<open>The power iteration\<close>

lemma iterates_0: "iterates T r 0 = r"
  by (simp add: iterates_def)

lemma iterates_Suc: "iterates T r (Suc k) = normalize_np (dot T (iterates T r k))"
  by (simp add: iterates_def)

lemma iterates_shift: "iterates T (normalize_np (dot T r)) k = iterates T r (Suc k)"
  by (induction k) (simp_all add: iterates_def)

lemma power_loop_converges:
  assumes "converged (iterates T r (Suc k)) (iterates T r k)"
    and "\<forall>j<k. \<not> converged (iterates T r (Suc j)) (iterates T r j)"
  shows "power_loop T r = Some (iterates T r (Suc k))"
  using assms
proof (induction k arbitrary: r)
  case 0
  then have "converged (normalize_np (dot T r)) r"
    by (simp add: iterates_Suc iterates_0)
  then show ?case
    by (subst power_loop.simps) (simp add: iterates_Suc iterates_0)
next
  case (Suc k)
  let ?r1 = "normalize_np (dot T r)"
  have not0: "\<not> converged ?r1 r"
    using Suc.prems(2) [rule_format, of 0] by (simp add: iterates_Suc iterates_0)
  have c: "converged (iterates T ?r1 (Suc k)) (iterates T ?r1 k)"
    using Suc.prems(1) by (simp add: iterates_shift)
  have nc: "\<forall>j<k. \<not> converged (iterates T ?r1 (Suc j)) (iterates T ?r1 j)"
  proof (intro allI impI)
    fix j assume "j < k"
    then have "\<not> converged (iterates T r (Suc (Suc j))) (iterates T r (Suc j))"
      using Suc.prems(2) by simp
    then show "\<not> converged (iterates T ?r1 (Suc j)) (iterates T ?r1 j)"
      by (simp add: iterates_shift)
  qed
  have "power_loop T ?r1 = Some (iterates T ?r1 (Suc k))"
    using c nc by (rule Suc.IH)
  then have "power_loop T ?r1 = Some (iterates T r (Suc (Suc k)))"
    by (simp add: iterates_shift)
  then show ?case
    using not0 by (subst power_loop.simps) simp
qed

lemma power_loop_returns:
  assumes "power_loop T r = Some y"
  shows "\<exists>k. converged (iterates T r (Suc k)) (iterates T r k)
           \<and> (\<forall>j<k. \<not> converged (iterates T r (Suc j)) (iterates T r j))
           \<and> y = iterates T r (Suc k)"
  using assms
proof (induction rule: power_loop.raw_induct [rotated 1, consumes 1, case_names step])
  case (step loop T r y)
  let ?r1 = "normalize_np (dot T r)"
  show ?case
  proof (cases "converged ?r1 r")
    case True
    then have "y = ?r1" using step.hyps by simp
    then have "converged (iterates T r (Suc 0)) (iterates T r 0)
           \<and> (\<forall>j<0. \<not> converged (iterates T r (Suc j)) (iterates T r j))
           \<and> y = iterates T r (Suc 0)"
      using True by (simp add: iterates_Suc iterates_0)
    then show ?thesis by blast
  next
    case False
    then have "loop T ?r1 = Some y" using step.hyps by simp
    then obtain k where k: "converged (iterates T ?r1 (Suc k)) (iterates T ?r1 k)"
      "\<forall>j<k. \<not> converged (iterates T ?r1 (Suc j)) (iterates T ?r1 j)"
      "y = iterates T ?r1 (Suc k)"
      using step.IH by blast
    have "\<forall>j<Suc k. \<not> converged (iterates T r (Suc j)) (iterates T r j)"
    proof (intro allI impI)
      fix j assume j: "j < Suc k"
      show "\<not> converged (iterates T r (Suc j)) (iterates T r j)"
      proof (cases j)
        case 0
        then show ?thesis using False by (simp add: iterates_Suc iterates_0)
      next
        case (Suc j')
        then have "j' < k" using j by simp
        then have "\<not> converged (iterates T ?r1 (Suc j')) (iterates T ?r1 j')" using k(2) by simp
        then show ?thesis unfolding Suc by (simp add: iterates_shift)
      qed
    qed
    moreover have "converged (iterates T r (Suc (Suc k))) (iterates T r (Suc k))"
      using k(1) by (simp add: iterates_shift)
    moreover have "y = iterates T r (Suc (Suc k))"
      using k(3) by (simp add: iterates_shift)
    ultimately show ?thesis by blast
  qed
qed

lemma power_loop_Some_iff:
  "power_loop T r = Some y \<longleftrightarrow>
     (\<exists>k. converged (iterates T r (Suc k)) (iterates T r k)
        \<and> (\<forall>j<k. \<not> converged (iterates T r (Suc j)) (iterates T r j))
        \<and> y = iterates T r (Suc k))"
  using power_loop_returns power_loop_converges by blast

lemma power_loop_None_iff:
  "power_loop T r = None \<longleftrightarrow> (\<forall>k. \<not> converged (iterates T r (Suc k)) (iterates T r k))"
proof
  assume none: "power_loop T r = None"
  show "\<forall>k. \<not> converged (iterates T r (Suc k)) (iterates T r k)"
  proof (rule ccontr)
    assume "\<not> (\<forall>k. \<not> converged (iterates T r (Suc k)) (iterates T r k))"
    then have ex: "\<exists>k. converged (iterates T r (Suc k)) (iterates T r k)" by simp
    define k where "k = (LEAST k. converged (iterates T r (Suc k)) (iterates T r k))"
    have c: "converged (iterates T r (Suc k)) (iterates T r k)"
      unfolding k_def using ex by (rule LeastI_ex)
    have "\<forall>j<k. \<not> converged (iterates T r (Suc j)) (iterates T r j)"
      unfolding k_def using not_less_Least by blast
    with c have "power_loop T r = Some (iterates T r (Suc k))"
      by (rule power_loop_converges)
    with none show False by simp
  qed
next
  assume "\<forall>k. \<not> converged (iterates T r (Suc k)) (iterates T r k)"
  then show "power_loop T r = None"
    using power_loop_returns by (cases "power_loop T r") blast+
qed


section \<open>One pass of the loop, on real numbers\<close>

lemma from_nat_real: "(from_nat n :: real) = real n"
  by (induction n) simp_all

lemma threshold_real: "(threshold :: real) = 1 / 10000"
  by (simp add: threshold_def from_nat_real)

lemma converged_real:
  "converged r' r \<longleftrightarrow> (\<forall>(a, b)\<in>set (zip (concat r') (concat r)). \<bar>a - b\<bar> < (1 / 10000 :: real))"
  by (simp add: converged_def threshold_real list_all_iff)

lemma r_init_real: "r_init n = replicate n [1 / real n]"
  by (simp add: r_init_def mat_div_def reshape_col_def ones_def from_nat_real)

lemma colvec_r_init: "colvec n (r_init n)"
  by (simp add: colvec_def r_init_def mat_div_def reshape_col_def ones_def list_all_length)

lemma colvec_ncols: "colvec n r \<Longrightarrow> 0 < n \<Longrightarrow> ncols r = 1"
  by (cases r) (auto simp: colvec_def ncols_def)

lemma colvec_nth: "colvec n r \<Longrightarrow> i < n \<Longrightarrow> r ! i = [r ! i ! 0]"
proof -
  assume "colvec n r" and "i < n"
  then have "length (r ! i) = 1" by (simp add: colvec_def list_all_length)
  then show ?thesis by (cases "r ! i") simp_all
qed

lemma colvec_concat: "colvec n r \<Longrightarrow> concat r = map (\<lambda>row. row ! 0) r"
proof (induction r arbitrary: n)
  case Nil
  then show ?case by simp
next
  case (Cons row r)
  then have "length row = 1" and "colvec (length r) r"
    by (simp_all add: colvec_def)
  then show ?case using Cons.IH by (cases row) simp_all
qed

lemma colvec_dot:
  assumes "length T = n" and "colvec n r"
  shows "colvec n (dot T r)"
proof (cases "n = 0")
  case True
  then show ?thesis using assms by (simp add: colvec_def dot_def)
next
  case False
  then have "ncols r = 1" using assms(2) by (simp add: colvec_ncols)
  then show ?thesis using assms(1) by (simp add: colvec_def dot_def list_all_length)
qed

lemma colvec_mat_div: "colvec n r \<Longrightarrow> colvec n (mat_div r c)"
  by (simp add: colvec_def mat_div_def list_all_length)

lemma colvec_step: "length T = n \<Longrightarrow> colvec n r \<Longrightarrow> colvec n (normalize_np (dot T r))"
  unfolding normalize_np_def by (intro colvec_mat_div colvec_dot)

lemma colvec_iterates: "length T = n \<Longrightarrow> colvec n r \<Longrightarrow> colvec n (iterates T r k)"
  by (induction k) (simp_all add: iterates_0 iterates_Suc colvec_step)

lemma nth_dot_colvec:
  fixes T :: "real mat"
  assumes "square n T" and "colvec n r" and "i < n"
  shows "dot T r ! i ! 0 = (\<Sum>j<n. T ! i ! j * r ! j ! 0)"
proof -
  have n: "0 < n" using assms(3) by simp
  have nc: "ncols r = 1" using assms(2) n by (rule colvec_ncols)
  have lr: "length r = n" using assms(2) by (simp add: colvec_def)
  have "dot T r ! i ! 0 = np_sum (map2 (*) (T ! i) (column r 0))"
    using assms(1,3) nc by (simp add: nth_dot square_length)
  also have "\<dots> = (\<Sum>j<n. T ! i ! j * r ! j ! 0)"
    using assms(1,3) lr by (intro np_sum_map2_column) (simp_all add: square_nth)
  finally show ?thesis .
qed

lemma sum_colvec:
  fixes r :: "real mat"
  assumes "colvec n r"
  shows "np_sum (concat r) = (\<Sum>i<n. r ! i ! 0)"
proof -
  have lr: "length r = n" using assms by (simp add: colvec_def)
  have "np_sum (concat r) = np_sum (map (\<lambda>row. row ! 0) r)"
    using assms by (simp add: colvec_concat)
  also have "\<dots> = (\<Sum>i<n. map (\<lambda>row. row ! 0) r ! i)"
    using lr by (simp add: np_sum_nth)
  also have "\<dots> = (\<Sum>i<n. r ! i ! 0)"
    using lr by (intro sum.cong) simp_all
  finally show ?thesis .
qed

lemma nth_step:
  fixes T :: "real mat"
  assumes "square n T" and "colvec n r" and "i < n"
  shows "normalize_np (dot T r) ! i ! 0
       = (\<Sum>j<n. T ! i ! j * r ! j ! 0) / (\<Sum>i<n. \<Sum>j<n. T ! i ! j * r ! j ! 0)"
proof -
  have cv: "colvec n (dot T r)"
    using assms(1,2) by (intro colvec_dot) (simp_all add: square_length)
  have len: "length (dot T r) = n" "length (dot T r ! i) = 1"
    using cv assms(3) by (simp_all add: colvec_def list_all_length)
  have s: "np_sum (concat (dot T r)) = (\<Sum>i<n. \<Sum>j<n. T ! i ! j * r ! j ! 0)"
    unfolding sum_colvec [OF cv]
    using assms(1,2) by (intro sum.cong refl nth_dot_colvec) simp_all
  have "normalize_np (dot T r) ! i ! 0 = dot T r ! i ! 0 / np_sum (concat (dot T r))"
    unfolding normalize_np_def using len assms(3) by (intro nth_mat_div) simp_all
  then show ?thesis
    using s nth_dot_colvec [OF assms] by simp
qed

lemma r_init_entries: "r_init n = replicate n [1 / from_nat n]"
  by (simp add: r_init_def mat_div_def reshape_col_def ones_def)

lemma converged_iff:
  "converged r' r \<longleftrightarrow> (\<forall>(a, b)\<in>set (zip (concat r') (concat r)). \<bar>a - b\<bar> < threshold)"
  by (simp add: converged_def list_all_iff)

lemma step_example:
  "normalize_np (dot [[77/120, 43/120], [43/120, 77/120]] [[1/2], [1/2 :: real]]) = [[1/2], [1/2]]"
  by (simp add: normalize_np_def dot_def mat_div_def ncols_def column_def np_sum_def
      upt_conv_Cons)


section \<open>The two-node example \<open>[[2,1],[1,2]]\<close> with \<open>gamma = 0.85\<close>\<close>

lemma example_trace: "trace [[2, 1], [1, 2 :: real]] = 4"
  by (simp add: trace_def diagonal_def ncols_def np_sum_def upt_conv_Cons numeral_2_eq_2)

lemma example_diagonal: "diagonal [[2, 1], [1, 2 :: real]] = [2, 2]"
  by (simp add: diagonal_def ncols_def upt_conv_Cons numeral_2_eq_2)

lemma example_fill:
  "fill_D_T_nz (85/100) [[2, 1], [1, 2 :: real]] = ([[1/3, 0], [0, 1/3]], [15/100, 15/100])"
  by (simp add: sum_axis0_def ncols_def column_def np_sum_def fill_D_T_nz_def
      nonzero_def fill_step_def zeros_def ones_def upt_conv_Cons numeral_2_eq_2)

lemma example_transition:
  "transition cm_dot (85/100) False [[2, 1], [1, 2 :: real]] = [[77/120, 43/120], [43/120, 77/120]]"
  unfolding transition_def example_fill example_trace
  by (simp add: dot_def mat_add_def scalar_mult_def mat_div_def
      broadcast_mult_def reshape_col_def diagonal_def ncols_def column_def np_sum_def
      upt_conv_Cons numeral_2_eq_2)

lemma example_r_init: "r_init 2 = [[1/2], [1/2 :: real]]"
  by (simp add: r_init_real numeral_2_eq_2)

lemma example_power_loop:
  "power_loop [[77/120, 43/120], [43/120, 77/120]] [[1/2], [1/2 :: real]] = Some [[1/2], [1/2]]"
  by (subst power_loop.simps) (simp add: step_example converged_real)

lemma example_calculate_snprank:
  "calculate_snprank cm_dot \<lparr>SNPs = names, GAIN = [[2, 1], [1, 2 :: real]]\<rparr> (85/100) False
     = Inr (Some ([1/2, 1/2], [2, 2]))"
proof -
  have sh: "shape [[2, 1], [1, 2 :: real]] = Inr (2, 2)" by (simp add: shape_def)
  show ?thesis
    unfolding calculate_snprank_def snprank.select_convs sh example_transition
    by (simp add: example_r_init example_power_loop example_diagonal)
qed


section \<open>The rank vector is a probability distribution\<close>

lemma stochastic_sum:
  fixes t :: "nat \<Rightarrow> nat \<Rightarrow> real" and v :: "nat \<Rightarrow> real"
  assumes "\<And>j. j < n \<Longrightarrow> (\<Sum>i<n. t i j) = 1" and "(\<Sum>j<n. v j) = 1"
  shows "(\<Sum>i<n. \<Sum>j<n. t i j * v j) = 1"
proof -
  have "(\<Sum>i<n. \<Sum>j<n. t i j * v j) = (\<Sum>j<n. \<Sum>i<n. t i j * v j)"
    by (rule sum.swap)
  also have "\<dots> = (\<Sum>j<n. (\<Sum>i<n. t i j) * v j)"
    by (simp add: sum_distrib_right)
  also have "\<dots> = (\<Sum>j<n. v j)"
    using assms(1) by (intro sum.cong) simp_all
  finally show ?thesis using assms(2) by simp
qed

lemma diag_sum:
  fixes g :: "nat \<Rightarrow> real"
  assumes "j < n"
  shows "(\<Sum>k<n. g k * (if k = j \<and> P k then d k else 0)) = g j * (if P j then d j else 0)"
proof -
  have "(\<Sum>k<n. g k * (if k = j \<and> P k then d k else 0))
      = (\<Sum>k<n. if k = j then g j * (if P j then d j else 0) else 0)"
    by (intro sum.cong) auto
  also have "\<dots> = g j * (if P j then d j else 0)"
    using assms by (simp add: sum.delta)
  finally show ?thesis .
qed

lemma transition_entry_closed:
  fixes G :: "real mat"
  assumes "square n G"
    and "cm_dot_is_dot cm_dot gamma usegpu G"
    and "i < n" and "j < n"
  shows "transition cm_dot gamma usegpu G ! i ! j
       = gamma * (G ! i ! j * (if sum_axis0 G ! j \<noteq> 0 then 1 / sum_axis0 G ! j else 0))
         + G ! i ! i * (if sum_axis0 G ! j \<noteq> 0 then 1 - gamma else 1) / trace G"
proof -
  let ?D = "fst (fill_D_T_nz gamma G)" and ?T = "snd (fill_D_T_nz gamma G)"
  have n: "ncols G = n" using assms(1) by (rule square_ncols)
  have sqD: "square n ?D"
    using fill_D_T_nz_props(1) [where gamma = gamma and G = G] by (simp add: n)
  have D: "\<And>k. k < n \<Longrightarrow> ?D ! k ! j
         = (if k = j \<and> sum_axis0 G ! k \<noteq> 0 then 1 / sum_axis0 G ! k else 0)"
    using fill_D_T_nz_props(3) [where gamma = gamma and G = G] assms(4) by (simp add: n)
  have T: "?T ! j = (if sum_axis0 G ! j \<noteq> 0 then 1 - gamma else 1)"
    using fill_D_T_nz_props(4) [where gamma = gamma and G = G] assms(4) by (simp add: n)
  have "np_sum (map2 (*) (G ! i) (column ?D j)) = (\<Sum>k<n. G ! i ! k * ?D ! k ! j)"
    using assms(1,3) sqD by (intro np_sum_map2_column) (simp_all add: square_nth square_length)
  also have "\<dots> = (\<Sum>k<n. G ! i ! k * (if k = j \<and> sum_axis0 G ! k \<noteq> 0 then 1 / sum_axis0 G ! k else 0))"
    using D by (intro sum.cong) simp_all
  also have "\<dots> = G ! i ! j * (if sum_axis0 G ! j \<noteq> 0 then 1 / sum_axis0 G ! j else 0)"
    using assms(4) by (rule diag_sum)
  finally have s: "np_sum (map2 (*) (G ! i) (column ?D j))
      = G ! i ! j * (if sum_axis0 G ! j \<noteq> 0 then 1 / sum_axis0 G ! j else 0)" .
  show ?thesis
    using nth_transition [OF assms]
    by (simp only: s T)
qed

lemma transition_nonneg:
  fixes G :: "real mat"
  assumes "square n G"
    and "cm_dot_is_dot cm_dot gamma usegpu G"
    and nonneg: "\<And>i j. i < n \<Longrightarrow> j < n \<Longrightarrow> 0 \<le> G ! i ! j"
    and "0 \<le> gamma" and "gamma < 1"
    and "i < n" and "j < n"
  shows "0 \<le> transition cm_dot gamma usegpu G ! i ! j"
proof -
  have cs: "0 \<le> sum_axis0 G ! j"
    unfolding colsum_real [OF assms(1) \<open>j < n\<close>] using nonneg \<open>j < n\<close> by (intro sum_nonneg) simp
  have tr: "0 \<le> trace G"
    unfolding trace_real [OF assms(1)] using nonneg by (intro sum_nonneg) simp
  have a: "0 \<le> gamma * (G ! i ! j * (if sum_axis0 G ! j \<noteq> 0 then 1 / sum_axis0 G ! j else 0))"
    using cs nonneg [OF \<open>i < n\<close> \<open>j < n\<close>] \<open>0 \<le> gamma\<close> by simp
  have b: "0 \<le> G ! i ! i * (if sum_axis0 G ! j \<noteq> 0 then 1 - gamma else 1) / trace G"
    using tr nonneg [OF \<open>i < n\<close> \<open>i < n\<close>] \<open>gamma < 1\<close> by simp
  show ?thesis
    unfolding transition_entry_closed [OF assms(1,2) \<open>i < n\<close> \<open>j < n\<close>] using a b by simp
qed

lemma transition_column_sum:
  fixes G :: "real mat"
  assumes "square n G"
    and "cm_dot_is_dot cm_dot gamma usegpu G"
    and "trace G \<noteq> 0" and "j < n"
  shows "(\<Sum>i<n. transition cm_dot gamma usegpu G ! i ! j) = 1"
proof -
  let ?d = "if sum_axis0 G ! j \<noteq> 0 then 1 / sum_axis0 G ! j else 0"
  let ?t = "if sum_axis0 G ! j \<noteq> 0 then 1 - gamma else 1"
  have "(\<Sum>i<n. transition cm_dot gamma usegpu G ! i ! j)
      = (\<Sum>i<n. gamma * (G ! i ! j * ?d) + G ! i ! i * ?t / trace G)"
    using assms(1,2,4) by (intro sum.cong refl transition_entry_closed) simp_all
  also have "\<dots> = gamma * ((\<Sum>i<n. G ! i ! j) * ?d) + (\<Sum>i<n. G ! i ! i) * ?t / trace G"
    by (simp only: sum.distrib sum_distrib_left sum_distrib_right sum_divide_distrib)
  also have "\<dots> = gamma * (sum_axis0 G ! j * ?d) + trace G * ?t / trace G"
    by (simp only: colsum_real [OF assms(1,4)] trace_real [OF assms(1)])
  also have "\<dots> = 1"
    using assms(3) by simp
  finally show ?thesis .
qed


lemma step_distribution:
  fixes T :: "real mat"
  assumes sq: "square n T"
    and Tnn: "\<And>i j. i < n \<Longrightarrow> j < n \<Longrightarrow> 0 \<le> T ! i ! j"
    and Tcol: "\<And>j. j < n \<Longrightarrow> (\<Sum>i<n. T ! i ! j) = 1"
    and cv: "colvec n r"
    and rnn: "\<And>i. i < n \<Longrightarrow> 0 \<le> r ! i ! 0"
    and rsum: "(\<Sum>i<n. r ! i ! 0) = 1"
  shows "colvec n (normalize_np (dot T r))"
    and "\<And>i. i < n \<Longrightarrow> 0 \<le> normalize_np (dot T r) ! i ! 0"
    and "(\<Sum>i<n. normalize_np (dot T r) ! i ! 0) = 1"
proof -
  have S: "(\<Sum>i<n. \<Sum>j<n. T ! i ! j * r ! j ! 0) = 1"
    using Tcol rsum by (rule stochastic_sum)
  have entry: "\<And>i. i < n \<Longrightarrow> normalize_np (dot T r) ! i ! 0 = (\<Sum>j<n. T ! i ! j * r ! j ! 0)"
    using nth_step [OF sq cv] S by simp
  show "colvec n (normalize_np (dot T r))"
    using sq cv by (intro colvec_step) (simp_all add: square_length)
  show "0 \<le> normalize_np (dot T r) ! i ! 0" if "i < n" for i
    unfolding entry [OF that] using Tnn rnn that by (intro sum_nonneg mult_nonneg_nonneg) simp_all
  have "(\<Sum>i<n. normalize_np (dot T r) ! i ! 0) = (\<Sum>i<n. \<Sum>j<n. T ! i ! j * r ! j ! 0)"
    using entry by (intro sum.cong) simp_all
  then show "(\<Sum>i<n. normalize_np (dot T r) ! i ! 0) = 1"
    using S by simp
qed

lemma r_init_distribution:
  assumes "0 < n"
  shows "\<And>i. i < n \<Longrightarrow> 0 \<le> (r_init n :: real mat) ! i ! 0"
    and "(\<Sum>i<n. (r_init n :: real mat) ! i ! 0) = 1"
  using assms by (simp_all add: r_init_real)

lemma iterates_distribution:
  fixes T :: "real mat"
  assumes sq: "square n T"
    and Tnn: "\<And>i j. i < n \<Longrightarrow> j < n \<Longrightarrow> 0 \<le> T ! i ! j"
    and Tcol: "\<And>j. j < n \<Longrightarrow> (\<Sum>i<n. T ! i ! j) = 1"
    and "0 < n"
  shows "colvec n (iterates T (r_init n) k)
       \<and> (\<forall>i<n. 0 \<le> iterates T (r_init n) k ! i ! 0)
       \<and> (\<Sum>i<n. iterates T (r_init n) k ! i ! 0) = 1"
proof (induction k)
  case 0
  show ?case
    using r_init_distribution [OF \<open>0 < n\<close>] by (simp add: iterates_0 colvec_r_init)
next
  case (Suc k)
  then have cv: "colvec n (iterates T (r_init n) k)"
    and nn: "\<And>i. i < n \<Longrightarrow> 0 \<le> iterates T (r_init n) k ! i ! 0"
    and s: "(\<Sum>i<n. iterates T (r_init n) k ! i ! 0) = 1"
    by simp_all
  show ?case
    unfolding iterates_Suc
    using step_distribution [OF sq Tnn Tcol cv nn s] by simp
qed

lemma colvec_entries:
  fixes r :: "real mat"
  assumes "colvec n r" and "\<forall>i<n. 0 \<le> r ! i ! 0" and "(\<Sum>i<n. r ! i ! 0) = 1"
  shows "(\<forall>x\<in>set (concat r). 0 \<le> x) \<and> sum_list (concat r) = 1"
proof -
  have lr: "length r = n" using assms(1) by (simp add: colvec_def)
  have c: "concat r = map (\<lambda>row. row ! 0) r" using assms(1) by (rule colvec_concat)
  have "\<forall>x\<in>set (concat r). 0 \<le> x"
    unfolding c using assms(2) lr by (auto simp: in_set_conv_nth)
  moreover have "sum_list (concat r) = 1"
    using sum_colvec [OF assms(1)] assms(3) by (simp add: np_sum_real)
  ultimately show ?thesis by simp
qed

lemma shape_square: "square n G \<Longrightarrow> 0 < n \<Longrightarrow> shape G = Inr (n, n)"
  by (cases G) (auto simp: shape_def square_def)

lemma calculate_snprank_square:
  assumes "square n (GAIN self)" and "0 < n"
  shows "calculate_snprank cm_dot self gamma usegpu
       = Inr (map_option (\<lambda>r. (concat r, diagonal (GAIN self)))
                (power_loop (transition cm_dot gamma usegpu (GAIN self)) (r_init n)))"
  by (simp add: calculate_snprank_def shape_square [OF assms])

lemma trace_nonzero_pos: "square n G \<Longrightarrow> trace G \<noteq> (0 :: real) \<Longrightarrow> 0 < n"
  by (cases "n = 0") (auto simp: trace_real)

text \<open>
  C4. For a square matrix with entries that are not negative, trace different from zero
  and \<open>0 \<le> gamma < 1\<close>, the rank vector is a probability distribution at the start,
  after every pass of the loop, and when the operation returns: no entry is negative
  and the entries add up to \<open>1\<close>. Entries are read as real numbers, where the sum is
  exactly \<open>1\<close>; with rounding it is \<open>1\<close> up to the rounding error.
\<close>

theorem rank_vector_distribution:
  fixes self :: "real snprank"
  assumes "square n (GAIN self)"
    and "\<forall>row\<in>set (GAIN self). \<forall>x\<in>set row. 0 \<le> x"
    and "trace (GAIN self) \<noteq> 0"
    and "0 \<le> gamma" and "gamma < 1"
    and "cm_dot_is_dot cm_dot gamma usegpu (GAIN self)"
  shows "(\<forall>k. (\<forall>x\<in>set (concat (iterates (transition cm_dot gamma usegpu (GAIN self)) (r_init n) k)). 0 \<le> x)
            \<and> sum_list (concat (iterates (transition cm_dot gamma usegpu (GAIN self)) (r_init n) k)) = 1)
       \<and> (\<forall>r ig. calculate_snprank cm_dot self gamma usegpu = Inr (Some (r, ig))
            \<longrightarrow> (\<forall>x\<in>set r. 0 \<le> x) \<and> sum_list r = 1)"
proof -
  let ?G = "GAIN self"
  let ?T = "transition cm_dot gamma usegpu ?G"
  have n: "0 < n" using assms(1,3) by (rule trace_nonzero_pos)
  have Gnn: "0 \<le> ?G ! i ! j" if "i < n" "j < n" for i j
  proof -
    have "?G ! i \<in> set ?G" using that(1) assms(1) by (simp add: square_length)
    moreover have "?G ! i ! j \<in> set (?G ! i)" using that assms(1) by (simp add: square_nth)
    ultimately show ?thesis using assms(2) by blast
  qed
  have sqT: "square n ?T" using assms(1,6) by (rule square_transition)
  have Tnn: "\<And>i j. i < n \<Longrightarrow> j < n \<Longrightarrow> 0 \<le> ?T ! i ! j"
    using assms(1,6) Gnn assms(4,5) by (rule transition_nonneg)
  have Tcol: "\<And>j. j < n \<Longrightarrow> (\<Sum>i<n. ?T ! i ! j) = 1"
    using assms(1,6,3) by (rule transition_column_sum)
  have it: "(\<forall>x\<in>set (concat (iterates ?T (r_init n) k)). 0 \<le> x)
          \<and> sum_list (concat (iterates ?T (r_init n) k)) = 1" for k
  proof (rule colvec_entries [where n = n])
    show "colvec n (iterates ?T (r_init n) k)"
      and "\<forall>i<n. 0 \<le> iterates ?T (r_init n) k ! i ! 0"
      and "(\<Sum>i<n. iterates ?T (r_init n) k ! i ! 0) = 1"
      using iterates_distribution [OF sqT Tnn Tcol n, of k] by simp_all
  qed
  have "(\<forall>x\<in>set r. 0 \<le> x) \<and> sum_list r = 1"
    if "calculate_snprank cm_dot self gamma usegpu = Inr (Some (r, ig))" for r ig
  proof -
    from that obtain r' where r': "power_loop ?T (r_init n) = Some r'" and r: "r = concat r'"
      unfolding calculate_snprank_square [OF assms(1) n] by auto
    from r' obtain k where "r' = iterates ?T (r_init n) (Suc k)"
      using power_loop_returns by blast
    then show ?thesis using it [of "Suc k"] r by simp
  qed
  then show ?thesis using it by blast
qed


theorem rank_vector_distribution_witness:
  "square 2 (GAIN \<lparr>SNPs = [''S1'', ''S2''], GAIN = [[2, 1], [1, 2 :: real]]\<rparr>)
   \<and> trace [[2, 1], [1, 2 :: real]] \<noteq> 0
   \<and> calculate_snprank dot \<lparr>SNPs = [''S1'', ''S2''], GAIN = [[2, 1], [1, 2 :: real]]\<rparr> (85/100) False
       = Inr (Some ([1/2, 1/2], [2, 2]))
   \<and> list_all (\<lambda>x. 0 \<le> x) [1/2, 1/2 :: real] \<and> sum_list [1/2, 1/2 :: real] = 1"
  using rank_vector_distribution [where n = 2 and gamma = "85/100" and cm_dot = dot and usegpu = False
      and self = "\<lparr>SNPs = [''S1'', ''S2''], GAIN = [[2, 1], [1, 2 :: real]]\<rparr>"]
    example_calculate_snprank [where cm_dot = dot and names = "[''S1'', ''S2'']"]
  by (simp add: square_def cm_dot_is_dot_def example_trace)

section \<open>The loop ends on every valid input\<close>

text \<open>
  On real numbers the transition matrix of a valid input is \<open>gamma * P + (1 - gamma) * p 1\<^sup>T\<close>
  with \<open>P\<close> column-stochastic and \<open>p = diag(G)/trace\<close>, so one pass shrinks the
  \<open>L\<^sub>1\<close> distance of two distributions by the factor \<open>gamma < 1\<close>, and two successive
  iterates come within the tolerance after finitely many passes.
\<close>

lemma step_entry:
  fixes T :: "real mat"
  assumes sq: "square n T"
    and Tcol: "\<And>j. j < n \<Longrightarrow> (\<Sum>i<n. T ! i ! j) = 1"
    and cv: "colvec n r"
    and rsum: "(\<Sum>i<n. r ! i ! 0) = 1"
    and i: "i < n"
  shows "normalize_np (dot T r) ! i ! 0 = (\<Sum>j<n. T ! i ! j * r ! j ! 0)"
proof -
  have S: "(\<Sum>i<n. \<Sum>j<n. T ! i ! j * r ! j ! 0) = 1"
    using Tcol rsum by (rule stochastic_sum)
  show ?thesis using nth_step [OF sq cv i] S by simp
qed

lemma l1_contraction:
  fixes P :: "nat \<Rightarrow> nat \<Rightarrow> real" and p u w :: "nat \<Rightarrow> real"
  assumes Pnn: "\<And>i j. i < n \<Longrightarrow> j < n \<Longrightarrow> 0 \<le> P i j"
    and Pcol: "\<And>j. j < n \<Longrightarrow> (\<Sum>i<n. P i j) = 1"
    and t: "\<And>i j. i < n \<Longrightarrow> j < n \<Longrightarrow> t i j = gamma * P i j + (1 - gamma) * p i"
    and gamma: "0 \<le> gamma"
    and sums: "(\<Sum>j<n. u j) = (\<Sum>j<n. w j)"
  shows "(\<Sum>i<n. \<bar>(\<Sum>j<n. t i j * u j) - (\<Sum>j<n. t i j * w j)\<bar>)
       \<le> gamma * (\<Sum>j<n. \<bar>u j - w j\<bar>)"
proof -
  have z: "(\<Sum>j<n. u j - w j) = 0" using sums by (simp add: sum_subtractf)
  have row: "\<bar>(\<Sum>j<n. t i j * u j) - (\<Sum>j<n. t i j * w j)\<bar>
           \<le> gamma * (\<Sum>j<n. P i j * \<bar>u j - w j\<bar>)" if i: "i < n" for i
  proof -
    have "(\<Sum>j<n. t i j * u j) - (\<Sum>j<n. t i j * w j) = (\<Sum>j<n. t i j * (u j - w j))"
      by (simp add: sum_subtractf right_diff_distrib)
    also have "\<dots> = (\<Sum>j<n. gamma * (P i j * (u j - w j)) + (1 - gamma) * p i * (u j - w j))"
    proof (intro sum.cong refl)
      fix j assume "j \<in> {..<n}"
      then have tij: "t i j = gamma * P i j + (1 - gamma) * p i" using t [OF i] by simp
      show "t i j * (u j - w j)
          = gamma * (P i j * (u j - w j)) + (1 - gamma) * p i * (u j - w j)"
        unfolding tij by (simp add: algebra_simps)
    qed
    also have "\<dots> = gamma * (\<Sum>j<n. P i j * (u j - w j)) + (1 - gamma) * p i * (\<Sum>j<n. u j - w j)"
      by (simp add: sum.distrib sum_distrib_left)
    also have "\<dots> = gamma * (\<Sum>j<n. P i j * (u j - w j))"
      using z by simp
    finally have e: "(\<Sum>j<n. t i j * u j) - (\<Sum>j<n. t i j * w j)
        = gamma * (\<Sum>j<n. P i j * (u j - w j))" .
    have "\<bar>\<Sum>j<n. P i j * (u j - w j)\<bar> \<le> (\<Sum>j<n. \<bar>P i j * (u j - w j)\<bar>)"
      by (rule sum_abs)
    also have "\<dots> = (\<Sum>j<n. P i j * \<bar>u j - w j\<bar>)"
      using Pnn [OF i] by (intro sum.cong) (simp_all add: abs_mult)
    finally have "\<bar>\<Sum>j<n. P i j * (u j - w j)\<bar> \<le> (\<Sum>j<n. P i j * \<bar>u j - w j\<bar>)" .
    then show ?thesis
      unfolding e using gamma by (simp add: abs_mult mult_left_mono)
  qed
  have "(\<Sum>i<n. \<bar>(\<Sum>j<n. t i j * u j) - (\<Sum>j<n. t i j * w j)\<bar>)
      \<le> (\<Sum>i<n. gamma * (\<Sum>j<n. P i j * \<bar>u j - w j\<bar>))"
    using row by (intro sum_mono) simp
  also have "\<dots> = gamma * (\<Sum>i<n. \<Sum>j<n. P i j * \<bar>u j - w j\<bar>)"
    by (simp add: sum_distrib_left)
  also have "(\<Sum>i<n. \<Sum>j<n. P i j * \<bar>u j - w j\<bar>) = (\<Sum>j<n. \<Sum>i<n. P i j * \<bar>u j - w j\<bar>)"
    by (rule sum.swap)
  also have "\<dots> = (\<Sum>j<n. (\<Sum>i<n. P i j) * \<bar>u j - w j\<bar>)"
    by (simp add: sum_distrib_right)
  also have "\<dots> = (\<Sum>j<n. \<bar>u j - w j\<bar>)"
    using Pcol by (intro sum.cong) simp_all
  finally show ?thesis .
qed


lemma converged_colvec:
  fixes r r' :: "real mat"
  assumes "colvec n r'" and "colvec n r"
  shows "converged r' r \<longleftrightarrow> (\<forall>i<n. \<bar>r' ! i ! 0 - r ! i ! 0\<bar> < 1 / 10000)"
proof -
  have l: "length r' = n" "length r = n" using assms by (simp_all add: colvec_def)
  have z: "zip (concat r') (concat r) = map (\<lambda>i. (r' ! i ! 0, r ! i ! 0)) [0..<n]"
    unfolding colvec_concat [OF assms(1)] colvec_concat [OF assms(2)]
    using l by (intro nth_equalityI) simp_all
  show ?thesis
    unfolding converged_real z by auto
qed

lemma transition_decomp:
  fixes G :: "real mat"
  assumes "square n G" and "cm_dot_is_dot cm_dot gamma usegpu G" and "trace G \<noteq> 0"
    and "i < n" and "j < n"
  shows "transition cm_dot gamma usegpu G ! i ! j
       = gamma * (if sum_axis0 G ! j \<noteq> 0 then G ! i ! j / sum_axis0 G ! j else G ! i ! i / trace G)
         + (1 - gamma) * (G ! i ! i / trace G)"
  unfolding transition_entry_closed [OF assms(1,2,4,5)]
  by (simp add: algebra_simps diff_divide_distrib add_divide_distrib [symmetric])

lemma link_matrix_nonneg:
  fixes G :: "real mat"
  assumes sq: "square n G" and nonneg: "\<And>i j. i < n \<Longrightarrow> j < n \<Longrightarrow> 0 \<le> G ! i ! j"
    and "i < n" and "j < n"
  shows "0 \<le> (if sum_axis0 G ! j \<noteq> 0 then G ! i ! j / sum_axis0 G ! j else G ! i ! i / trace G)"
proof -
  have cs: "0 \<le> sum_axis0 G ! j"
    unfolding colsum_real [OF sq \<open>j < n\<close>] using nonneg \<open>j < n\<close> by (intro sum_nonneg) simp
  have tr: "0 \<le> trace G"
    unfolding trace_real [OF sq] using nonneg by (intro sum_nonneg) simp
  show ?thesis
    using cs tr nonneg [OF \<open>i < n\<close> \<open>j < n\<close>] nonneg [OF \<open>i < n\<close> \<open>i < n\<close>] by simp
qed

lemma link_matrix_column_sum:
  fixes G :: "real mat"
  assumes sq: "square n G" and "trace G \<noteq> 0" and "j < n"
  shows "(\<Sum>i<n. if sum_axis0 G ! j \<noteq> 0 then G ! i ! j / sum_axis0 G ! j else G ! i ! i / trace G) = 1"
proof (cases "sum_axis0 G ! j \<noteq> 0")
  case True
  have "(\<Sum>i<n. G ! i ! j / sum_axis0 G ! j) = (\<Sum>i<n. G ! i ! j) / sum_axis0 G ! j"
    by (simp add: sum_divide_distrib)
  also have "\<dots> = 1" using True by (simp add: colsum_real [OF sq \<open>j < n\<close>])
  finally show ?thesis using True by simp
next
  case False
  have "(\<Sum>i<n. G ! i ! i / trace G) = (\<Sum>i<n. G ! i ! i) / trace G"
    by (simp add: sum_divide_distrib)
  also have "\<dots> = 1" using assms(2) by (simp add: trace_real [OF sq])
  finally show ?thesis using False by simp
qed

lemma valid_input_converges:
  fixes G :: "real mat"
  assumes sq: "square n G"
    and nonneg: "\<And>i j. i < n \<Longrightarrow> j < n \<Longrightarrow> 0 \<le> G ! i ! j"
    and tr: "trace G \<noteq> 0"
    and g0: "0 \<le> gamma" and g1: "gamma < 1"
    and gpu: "cm_dot_is_dot cm_dot gamma usegpu G"
  shows "\<exists>k. converged (iterates (transition cm_dot gamma usegpu G) (r_init n) (Suc k))
                (iterates (transition cm_dot gamma usegpu G) (r_init n) k)"
proof -
  let ?T = "transition cm_dot gamma usegpu G"
  define e where "e k i = iterates ?T (r_init n) k ! i ! 0" for k i
  define P where "P i j = (if sum_axis0 G ! j \<noteq> 0 then G ! i ! j / sum_axis0 G ! j
                           else G ! i ! i / trace G)" for i j
  define d where "d k = (\<Sum>i<n. \<bar>e (Suc k) i - e k i\<bar>)" for k
  have n: "0 < n" using sq tr by (rule trace_nonzero_pos)
  have sqT: "square n ?T" using sq gpu by (rule square_transition)
  have Tnn: "\<And>i j. i < n \<Longrightarrow> j < n \<Longrightarrow> 0 \<le> ?T ! i ! j"
    using sq gpu nonneg g0 g1 by (rule transition_nonneg)
  have Tcol: "\<And>j. j < n \<Longrightarrow> (\<Sum>i<n. ?T ! i ! j) = 1"
    using sq gpu tr by (rule transition_column_sum)
  have dist: "colvec n (iterates ?T (r_init n) k)
       \<and> (\<forall>i<n. 0 \<le> e k i) \<and> (\<Sum>i<n. e k i) = 1" for k
    unfolding e_def using iterates_distribution [OF sqT Tnn Tcol n, of k] by simp
  have step: "e (Suc k) i = (\<Sum>j<n. ?T ! i ! j * e k j)" if "i < n" for k i
    unfolding e_def iterates_Suc
    using step_entry [OF sqT Tcol _ _ that, of "iterates ?T (r_init n) k"] dist [of k]
    by (simp add: e_def)
  have Pnn: "\<And>i j. i < n \<Longrightarrow> j < n \<Longrightarrow> 0 \<le> P i j"
    unfolding P_def using sq nonneg by (rule link_matrix_nonneg)
  have Pcol: "\<And>j. j < n \<Longrightarrow> (\<Sum>i<n. P i j) = 1"
    unfolding P_def using sq tr by (rule link_matrix_column_sum)
  have Tdec: "\<And>i j. i < n \<Longrightarrow> j < n \<Longrightarrow> ?T ! i ! j = gamma * P i j + (1 - gamma) * (G ! i ! i / trace G)"
    unfolding P_def using sq gpu tr by (rule transition_decomp)
  have contr: "d (Suc k) \<le> gamma * d k" for k
  proof -
    have "d (Suc k) = (\<Sum>i<n. \<bar>(\<Sum>j<n. ?T ! i ! j * e (Suc k) j) - (\<Sum>j<n. ?T ! i ! j * e k j)\<bar>)"
      unfolding d_def using step by (intro sum.cong) simp_all
    also have "\<dots> \<le> gamma * (\<Sum>j<n. \<bar>e (Suc k) j - e k j\<bar>)"
    proof (rule l1_contraction [where P = P and p = "\<lambda>i. G ! i ! i / trace G"])
      show "(\<Sum>j<n. e (Suc k) j) = (\<Sum>j<n. e k j)" using dist [of k] dist [of "Suc k"] by simp
    qed (use Pnn Pcol Tdec g0 in simp_all)
    finally show ?thesis unfolding d_def .
  qed
  have bound: "d k \<le> gamma ^ k * d 0" for k
  proof (induction k)
    case 0
    show ?case by simp
  next
    case (Suc k)
    have "d (Suc k) \<le> gamma * d k" by (rule contr)
    also have "\<dots> \<le> gamma * (gamma ^ k * d 0)" using Suc g0 by (rule mult_left_mono)
    finally show ?case by (simp add: mult.assoc)
  qed
  have d0: "d 0 \<le> 2"
  proof -
    have "d 0 \<le> (\<Sum>i<n. e (Suc 0) i + e 0 i)"
      unfolding d_def using dist [of 0] dist [of "Suc 0"]
      by (intro sum_mono) (simp add: abs_le_iff)
    also have "\<dots> = 2" using dist [of 0] dist [of "Suc 0"] by (simp add: sum.distrib)
    finally show ?thesis .
  qed
  obtain k where k: "gamma ^ k < 1 / 20000"
    using real_arch_pow_inv [of "1 / 20000" gamma] g1 by auto
  have "d k \<le> gamma ^ k * d 0" by (rule bound)
  also have "\<dots> \<le> gamma ^ k * 2" using d0 g0 by (intro mult_left_mono) simp_all
  also have "\<dots> < 1 / 10000" using k by simp
  finally have dk: "d k < 1 / 10000" .
  have "\<bar>e (Suc k) i - e k i\<bar> < 1 / 10000" if "i < n" for i
  proof -
    have "\<bar>e (Suc k) i - e k i\<bar> \<le> d k"
      unfolding d_def using that by (intro member_le_sum) simp_all
    then show ?thesis using dk by simp
  qed
  then have "converged (iterates ?T (r_init n) (Suc k)) (iterates ?T (r_init n) k)"
    using dist [of k] dist [of "Suc k"]
    by (subst converged_colvec [where n = n]) (simp_all add: e_def)
  then show ?thesis by blast
qed

lemma valid_input_returns:
  fixes self :: "real snprank"
  assumes sq: "square n (GAIN self)"
    and nonneg: "\<forall>row\<in>set (GAIN self). \<forall>x\<in>set row. 0 \<le> x"
    and tr: "trace (GAIN self) \<noteq> 0"
    and g0: "0 \<le> gamma" and g1: "gamma < 1"
    and gpu: "cm_dot_is_dot cm_dot gamma usegpu (GAIN self)"
  shows "\<exists>r. calculate_snprank cm_dot self gamma usegpu = Inr (Some (r, diagonal (GAIN self)))"
proof -
  let ?G = "GAIN self"
  let ?T = "transition cm_dot gamma usegpu ?G"
  have n: "0 < n" using sq tr by (rule trace_nonzero_pos)
  have Gnn: "0 \<le> ?G ! i ! j" if "i < n" "j < n" for i j
  proof -
    have "?G ! i \<in> set ?G" using that(1) sq by (simp add: square_length)
    moreover have "?G ! i ! j \<in> set (?G ! i)" using that sq by (simp add: square_nth)
    ultimately show ?thesis using nonneg by blast
  qed
  have "\<exists>k. converged (iterates ?T (r_init n) (Suc k)) (iterates ?T (r_init n) k)"
    using sq Gnn tr g0 g1 gpu by (rule valid_input_converges)
  then have "power_loop ?T (r_init n) \<noteq> None"
    by (simp add: power_loop_None_iff)
  then obtain r' where "power_loop ?T (r_init n) = Some r'" by auto
  then show ?thesis
    unfolding calculate_snprank_square [OF sq n] by simp
qed


section \<open>The formatter\<close>

lemma rows_of_Cons_Header: "rows_of (Header h # ls) = rows_of ls"
  by (simp add: rows_of_def)

lemma rows_of_map_Row: "rows_of (map (\<lambda>(n, s, g). Row n s g) xs) = xs"
  by (induction xs) (auto simp: rows_of_def)

lemma rows_of_print_to_file:
  "rows_of (print_to_file names scores ig) = sorted_reverse (\<lambda>item. fst (snd item)) (zip3 names scores ig)"
  by (simp add: print_to_file_def rows_of_Cons_Header rows_of_map_Row)

lemma mset_sorted_reverse: "mset (sorted_reverse key xs) = mset xs"
  by (simp add: sorted_reverse_def)

lemma sorted_reverse_desc: "sorted_wrt (\<lambda>a b. key a \<ge> key b) (sorted_reverse key xs)"
proof -
  have "sorted (map key (sort_key key (rev xs)))" by simp
  then have "sorted_wrt (\<lambda>a b. key a \<le> key b) (sort_key key (rev xs))"
    by (simp add: sorted_wrt_map)
  then show ?thesis
    unfolding sorted_reverse_def by (simp add: sorted_wrt_rev)
qed

lemma sorted_reverse_stable:
  "filter (\<lambda>item. key item = k) (sorted_reverse key xs) = filter (\<lambda>item. key item = k) xs"
  unfolding sorted_reverse_def
  by (simp add: rev_filter [symmetric] sort_key_stable)

text \<open>
  C8. For names, scores and diagonal values of equal length, the formatter writes the
  header and then one row per triple \<open>(name, score, diagonal)\<close>: the rows are a
  rearrangement of the triples, in descending order of score, and rows of equal score keep
  the order they had in the input. The witness is the example of the specification:
  scores \<open>[0.5, 0.9, 0.1]\<close> with names \<open>A, B, C\<close> come out as \<open>B, A, C\<close>.
\<close>

theorem print_to_file_sorted_stable:
  assumes "length names = length scores" and "length scores = length ig"
  shows "hd (print_to_file names scores ig) = Header [''SNP'', ''SNPrank'', ''IG'']
       \<and> mset (rows_of (print_to_file names scores ig)) = mset (zip3 names scores ig)
       \<and> length (rows_of (print_to_file names scores ig)) = length names
       \<and> sorted_wrt (\<lambda>a b. fst (snd a) \<ge> fst (snd b)) (rows_of (print_to_file names scores ig))
       \<and> (\<forall>k. filter (\<lambda>item. fst (snd item) = k) (rows_of (print_to_file names scores ig))
              = filter (\<lambda>item. fst (snd item) = k) (zip3 names scores ig))"
proof -
  have "length (rows_of (print_to_file names scores ig)) = length (zip3 names scores ig)"
    unfolding rows_of_print_to_file using mset_sorted_reverse by (metis size_mset)
  then have "length (rows_of (print_to_file names scores ig)) = length names"
    using assms by (simp add: zip3_def)
  then show ?thesis
    by (simp add: rows_of_print_to_file mset_sorted_reverse sorted_reverse_desc sorted_reverse_stable)
       (simp add: print_to_file_def)
qed

theorem print_to_file_sorted_stable_witness:
  "print_to_file [''A'', ''B'', ''C''] [5/10, 9/10, 1/10 :: real] [1, 2, 3]
     = [Header [''SNP'', ''SNPrank'', ''IG''], Row ''B'' (9/10) 2, Row ''A'' (5/10) 1, Row ''C'' (1/10) 3]
   \<and> rows_of (print_to_file [''A'', ''B'', ''C''] [5/10, 9/10, 1/10 :: real] [1, 2, 3])
     = [(''B'', 9/10, 2), (''A'', 5/10, 1), (''C'', 1/10, 3)]
   \<and> sorted_wrt (\<lambda>a b. fst (snd a) \<ge> fst (snd b))
        (rows_of (print_to_file [''A'', ''B'', ''C''] [5/10, 9/10, 1/10 :: real] [1, 2, 3]))"
  using print_to_file_sorted_stable [of "[''A'', ''B'', ''C'']" "[5/10, 9/10, 1/10 :: real]" "[1, 2, 3]"]
  by (simp add: print_to_file_def sorted_reverse_def zip3_def rows_of_def)


section \<open>The loader and the whole run\<close>

lemma float_of_digits_examples:
  "float_of_digits ''1'' = Some 1" "float_of_digits ''2'' = Some 2"
  "float_of_digits ''3'' = Some 3" "float_of_digits ''4'' = Some 4"
  "float_of_digits ''5'' = Some 5" "float_of_digits ''6'' = Some 6"
  by (simp_all add: float_of_digits_def)

lemma np_array_error:
  "list_ex (\<lambda>row. length row \<noteq> length (hd body)) body
     \<or> list_ex (list_ex (\<lambda>t. to_float t = None)) body
   \<Longrightarrow> np_array to_float body = Inl ArrayValueError"
  by (auto simp: np_array_def)

lemma np_array_ok:
  "\<not> (list_ex (\<lambda>row. length row \<noteq> length (hd body)) body
       \<or> list_ex (list_ex (\<lambda>t. to_float t = None)) body)
   \<Longrightarrow> np_array to_float body = Inr (map (map (\<lambda>t. the (to_float t))) body)"
  by (auto simp: np_array_def)

lemma np_array_rect:
  assumes "np_array to_float body = Inr G"
  shows "length G = length body" and "list_all (\<lambda>row. length row = ncols G) G"
proof -
  have u: "\<not> list_ex (\<lambda>row. length row \<noteq> length (hd body)) body"
    and G: "G = map (map (\<lambda>t. the (to_float t))) body"
    using assms by (auto simp: np_array_def split: if_splits)
  show "length G = length body" using G by simp
  have "ncols G = length (hd body)" if "body \<noteq> []"
    using that G by (cases body) (simp_all add: ncols_def)
  then show "list_all (\<lambda>row. length row = ncols G) G"
    using u G by (cases body) (auto simp: list_all_iff list_ex_iff)
qed

lemma calculate_snprank_Inr_square:
  assumes "calculate_snprank cm_dot self gamma usegpu = Inr res"
    and "list_all (\<lambda>row. length row = ncols (GAIN self)) (GAIN self)"
  shows "square (length (GAIN self)) (GAIN self)" and "0 < length (GAIN self)"
proof -
  obtain row rest where G: "GAIN self = row # rest"
    using assms(1) by (cases "GAIN self") (auto simp: calculate_snprank_def shape_def)
  then have "length (GAIN self) = length row"
    using assms(1) by (auto simp: calculate_snprank_def shape_def split: if_splits)
  then have "ncols (GAIN self) = length (GAIN self)" using G by (simp add: ncols_def)
  then show "square (length (GAIN self)) (GAIN self)"
    using assms(2) by (simp add: square_def)
  show "0 < length (GAIN self)" using G by simp
qed

lemma calculate_snprank_lengths:
  assumes "calculate_snprank cm_dot self gamma usegpu = Inr (Some (r, ig))"
    and "list_all (\<lambda>row. length row = ncols (GAIN self)) (GAIN self)"
    and "cm_dot_is_dot cm_dot gamma usegpu (GAIN self)"
  shows "length r = length (GAIN self)" and "ig = diagonal (GAIN self)"
    and "length ig = length (GAIN self)"
proof -
  let ?n = "length (GAIN self)"
  let ?T = "transition cm_dot gamma usegpu (GAIN self)"
  have sq: "square ?n (GAIN self)" and n: "0 < ?n"
    using calculate_snprank_Inr_square [OF assms(1,2)] by simp_all
  from assms(1) obtain r' where r': "power_loop ?T (r_init ?n) = Some r'"
    and r: "r = concat r'" and ig: "ig = diagonal (GAIN self)"
    unfolding calculate_snprank_square [OF sq n] by auto
  from r' obtain k where k: "r' = iterates ?T (r_init ?n) (Suc k)"
    using power_loop_returns by blast
  have "length ?T = ?n"
    using square_transition [OF sq assms(3)] by (rule square_length)
  then have "colvec ?n r'"
    unfolding k using colvec_r_init by (rule colvec_iterates)
  then show "length r = ?n"
    unfolding r by (simp add: colvec_concat) (simp add: colvec_def)
  show "ig = diagonal (GAIN self)" by (rule ig)
  show "length ig = ?n" unfolding ig using sq by (rule length_diagonal)
qed

lemma length_rows_of_print_to_file:
  "length (rows_of (print_to_file names scores ig))
     = min (length names) (min (length scores) (length ig))"
proof -
  have "length (rows_of (print_to_file names scores ig)) = length (zip3 names scores ig)"
    unfolding rows_of_print_to_file using mset_sorted_reverse by (metis size_mset)
  then show ?thesis by (simp add: zip3_def)
qed


text \<open>
  C6. For a matrix whose number of rows differs from its number of columns (2 by 3, for
  example), the rank operation raises \<open>ValueError("Input is not an NxN matrix")\<close> at the
  shape check, before the transition matrix or any pass of the loop, and a run on such
  an input ends with that error and writes no row.
\<close>

theorem non_square_rejected:
  assumes "GAIN self \<noteq> []" and "length (GAIN self) \<noteq> ncols (GAIN self)"
  shows "calculate_snprank cm_dot self gamma usegpu = Inl NotSquare
       \<and> (init to_float records = Inr self
            \<longrightarrow> main to_float cm_dot gamma usegpu records = Inl NotSquare)"
proof -
  obtain row rest where G: "GAIN self = row # rest"
    using assms(1) by (cases "GAIN self") simp_all
  have "calculate_snprank cm_dot self gamma usegpu = Inl NotSquare"
    using assms(2) G by (simp add: calculate_snprank_def shape_def ncols_def)
  then show ?thesis by (simp add: main_def)
qed

theorem non_square_rejected_witness:
  "init float_of_digits [[''A'', ''B'', ''C''], [''1'', ''2'', ''3''], [''4'', ''5'', ''6'']]
     = Inr \<lparr>SNPs = [''A'', ''B'', ''C''], GAIN = [[1, 2, 3], [4, 5, 6]]\<rparr>
   \<and> calculate_snprank dot \<lparr>SNPs = [''A'', ''B'', ''C''], GAIN = [[1, 2, 3], [4, 5, 6 :: real]]\<rparr>
        (85/100) False = Inl NotSquare
   \<and> main float_of_digits dot (85/100) False
        [[''A'', ''B'', ''C''], [''1'', ''2'', ''3''], [''4'', ''5'', ''6'']] = Inl NotSquare"
proof -
  have i: "init float_of_digits [[''A'', ''B'', ''C''], [''1'', ''2'', ''3''], [''4'', ''5'', ''6'']]
     = Inr \<lparr>SNPs = [''A'', ''B'', ''C''], GAIN = [[1, 2, 3], [4, 5, 6]]\<rparr>"
    by (simp add: init_def np_array_def float_of_digits_examples)
  show ?thesis
    using non_square_rejected [where self = "\<lparr>SNPs = [''A'', ''B'', ''C''], GAIN = [[1, 2, 3], [4, 5, 6 :: real]]\<rparr>"
        and cm_dot = dot and gamma = "85/100" and usegpu = False and to_float = float_of_digits
        and records = "[[''A'', ''B'', ''C''], [''1'', ''2'', ''3''], [''4'', ''5'', ''6'']]"] i
    by (simp add: ncols_def)
qed

text \<open>
  C7, as the program behaves. Data rows that differ in width among themselves, or that
  hold a token that is not a number, make the loader fail with \<open>ValueError\<close> before the
  rank operation, and the run writes no row. The width of the data rows is not compared
  with the number of names: rows of one common width are loaded whatever the header is.
\<close>

theorem ragged_rows_rejected:
  "(list_ex (\<lambda>row. length row \<noteq> length (hd body)) body
      \<or> list_ex (list_ex (\<lambda>t. to_float t = None)) body
    \<longrightarrow> init to_float (header # body) = Inl ArrayValueError
      \<and> main to_float cm_dot gamma usegpu (header # body) = Inl ArrayValueError)
   \<and> (\<not> (list_ex (\<lambda>row. length row \<noteq> length (hd body)) body
      \<or> list_ex (list_ex (\<lambda>t. to_float t = None)) body)
    \<longrightarrow> init to_float (header # body)
        = Inr \<lparr>SNPs = header, GAIN = map (map (\<lambda>t. the (to_float t))) body\<rparr>)"
proof (intro conjI impI)
  assume a: "list_ex (\<lambda>row. length row \<noteq> length (hd body)) body
      \<or> list_ex (list_ex (\<lambda>t. to_float t = None)) body"
  show "init to_float (header # body) = Inl ArrayValueError"
    using np_array_error [OF a] by (simp add: init_def)
  then show "main to_float cm_dot gamma usegpu (header # body) = Inl ArrayValueError"
    by (simp add: main_def)
next
  assume a: "\<not> (list_ex (\<lambda>row. length row \<noteq> length (hd body)) body
      \<or> list_ex (list_ex (\<lambda>t. to_float t = None)) body)"
  show "init to_float (header # body)
        = Inr \<lparr>SNPs = header, GAIN = map (map (\<lambda>t. the (to_float t))) body\<rparr>"
    using np_array_ok [OF a] by (simp add: init_def)
qed

theorem ragged_rows_rejected_witness:
  "main float_of_digits dot (85/100) False [[''A'', ''B''], [''2'', ''1''], [''1'']]
     = Inl ArrayValueError
   \<and> main float_of_digits dot (85/100) False [[''A'', ''B''], [''2'', ''1''], [''1'', ''x'']]
     = Inl ArrayValueError
   \<and> init float_of_digits [[''A'', ''B'', ''C''], [''2'', ''1''], [''1'', ''2'']]
     = Inr \<lparr>SNPs = [''A'', ''B'', ''C''], GAIN = [[2, 1], [1, 2]]\<rparr>"
  using ragged_rows_rejected [where to_float = float_of_digits and cm_dot = dot and gamma = "85/100"
      and usegpu = False and header = "[''A'', ''B'']" and body = "[[''2'', ''1''], [''1'']]"]
    ragged_rows_rejected [where to_float = float_of_digits and cm_dot = dot and gamma = "85/100"
      and usegpu = False and header = "[''A'', ''B'']" and body = "[[''2'', ''1''], [''1'', ''x'']]"]
    ragged_rows_rejected [where to_float = float_of_digits and cm_dot = dot and gamma = "85/100"
      and usegpu = False and header = "[''A'', ''B'', ''C'']" and body = "[[''2'', ''1''], [''1'', ''2'']]"]
  by (simp add: float_of_digits_examples) (simp add: float_of_digits_def)

text \<open>
  C7, as the claim states it, fails: with three names and two data rows of width two the
  rows have a width different from the header width, and the run ends without an error
  and writes two rows.
\<close>

theorem row_width_counterexample:
  "main float_of_digits dot (85/100) False [[''A'', ''B'', ''C''], [''2'', ''1''], [''1'', ''2'']]
     = Inr (Some [Header [''SNP'', ''SNPrank'', ''IG''], Row ''A'' (1/2) 2, Row ''B'' (1/2) 2])"
proof -
  have i: "init float_of_digits [[''A'', ''B'', ''C''], [''2'', ''1''], [''1'', ''2'']]
     = Inr \<lparr>SNPs = [''A'', ''B'', ''C''], GAIN = [[2, 1], [1, 2]]\<rparr>"
    by (simp add: init_def np_array_def float_of_digits_examples)
  show ?thesis
    unfolding main_def i sum.case example_calculate_snprank
    by (simp add: print_to_file_def sorted_reverse_def zip3_def)
qed

section \<open>The run on the store\<close>

lemma fold_setitem:
  "fold (\<lambda>i s. setitem1 t i (1 - gamma) (setitem2 d i i (1 / cs ! i) s)) idx s
   = s\<lparr>ndarrays := (ndarrays s)(d := fst (fold (fill_step gamma cs) idx (ndarrays s d, vectors s t))),
       vectors := (vectors s)(t := snd (fold (fill_step gamma cs) idx (ndarrays s d, vectors s t)))\<rparr>"
proof (induction idx arbitrary: s)
  case Nil
  show ?case by simp
next
  case (Cons a idx)
  let ?s1 = "setitem1 t a (1 - gamma) (setitem2 d a a (1 / cs ! a) s)"
  have step: "fill_step gamma cs a (ndarrays s d, vectors s t) = (ndarrays ?s1 d, vectors ?s1 t)"
    by (simp add: setitem1_def setitem2_def fill_step_def)
  have over: "?s1\<lparr>ndarrays := (ndarrays ?s1)(d := X), vectors := (vectors ?s1)(t := Y)\<rparr>
      = s\<lparr>ndarrays := (ndarrays s)(d := X), vectors := (vectors s)(t := Y)\<rparr>" for X Y
    by (simp add: setitem1_def setitem2_def)
  have "fold (\<lambda>i s. setitem1 t i (1 - gamma) (setitem2 d i i (1 / cs ! i) s)) (a # idx) s
      = fold (\<lambda>i s. setitem1 t i (1 - gamma) (setitem2 d i i (1 / cs ! i) s)) idx ?s1"
    by simp
  also have "\<dots> = ?s1\<lparr>ndarrays := (ndarrays ?s1)(d := fst (fold (fill_step gamma cs) idx (ndarrays ?s1 d, vectors ?s1 t))),
       vectors := (vectors ?s1)(t := snd (fold (fill_step gamma cs) idx (ndarrays ?s1 d, vectors ?s1 t)))\<rparr>"
    by (rule Cons.IH)
  also have "\<dots> = s\<lparr>ndarrays := (ndarrays s)(d := fst (fold (fill_step gamma cs) idx (ndarrays ?s1 d, vectors ?s1 t))),
       vectors := (vectors s)(t := snd (fold (fill_step gamma cs) idx (ndarrays ?s1 d, vectors ?s1 t)))\<rparr>"
    by (rule over)
  finally show ?case
    by (simp only: fold_Cons comp_apply step)
qed

lemma calculate_snprank_store_eq:
  assumes g: "GAIN_at self < fresh s"
  shows "calculate_snprank_store cm_dot self gamma usegpu s =
     (case calculate_snprank cm_dot \<lparr>SNPs = names, GAIN = ndarrays s (GAIN_at self)\<rparr> gamma usegpu of
        Inl e \<Rightarrow> Inl e
      | Inr None \<Rightarrow> Inr None
      | Inr (Some res) \<Rightarrow> Inr (Some (res, store_after gamma (GAIN_at self) s)))"
proof (cases "ndarrays s (GAIN_at self)")
  case Nil
  then show ?thesis
    by (simp add: calculate_snprank_store_def calculate_snprank_def shape_def)
next
  case (Cons row rest)
  let ?G = "ndarrays s (GAIN_at self)"
  let ?n = "length row"
  have sh: "shape ?G = Inr (length ?G, ?n)" using Cons by (simp add: shape_def)
  have nc: "ncols ?G = ?n" using Cons by (simp add: ncols_def)
  show ?thesis
  proof (cases "length ?G = ?n")
    case False
    then show ?thesis
      by (simp add: calculate_snprank_store_def calculate_snprank_def sh)
  next
    case True
    let ?s2 = "s\<lparr>ndarrays := (ndarrays s)(fresh s := zeros ?n ?n),
                 vectors := (vectors s)(Suc (fresh s) := ones ?n),
                 fresh := Suc (Suc (fresh s))\<rparr>"
    have fill: "fill_D_T_nz gamma ?G
        = fold (fill_step gamma (sum_axis0 ?G)) (nonzero (sum_axis0 ?G)) (zeros ?n ?n, ones ?n)"
      by (simp add: fill_D_T_nz_def nc Let_def)
    have s3: "fold (\<lambda>i s. setitem1 (Suc (fresh s')) i (1 - gamma) (setitem2 (fresh s') i i (1 / sum_axis0 ?G ! i) s))
                (nonzero (sum_axis0 ?G)) ?s2 = store_after gamma (GAIN_at self) s" if "s' = s" for s'
      unfolding that fold_setitem store_after_def fill by simp
    have G3: "ndarrays (store_after gamma (GAIN_at self) s) (GAIN_at self) = ?G"
      using g by (simp add: store_after_def)
    have D3: "ndarrays (store_after gamma (GAIN_at self) s) (fresh s) = fst (fill_D_T_nz gamma ?G)"
      by (simp add: store_after_def)
    have T3: "vectors (store_after gamma (GAIN_at self) s) (Suc (fresh s)) = snd (fill_D_T_nz gamma ?G)"
      by (simp add: store_after_def)
    have lhs: "calculate_snprank_store cm_dot self gamma usegpu s
        = Inr (map_option (\<lambda>r. ((concat r, diagonal ?G), store_after gamma (GAIN_at self) s))
                 (power_loop (transition cm_dot gamma usegpu ?G) (r_init ?n)))"
      unfolding calculate_snprank_store_def sh
      by (simp add: True new_ndarray_def new_vector_def Let_def s3 G3 D3 T3 transition_unfold)
    have rhs: "calculate_snprank cm_dot \<lparr>SNPs = names, GAIN = ?G\<rparr> gamma usegpu
        = Inr (map_option (\<lambda>r. (concat r, diagonal ?G))
                 (power_loop (transition cm_dot gamma usegpu ?G) (r_init ?n)))"
      by (simp add: calculate_snprank_def sh True)
    show ?thesis
      unfolding lhs rhs
      by (cases "power_loop (transition cm_dot gamma usegpu ?G) (r_init ?n)") simp_all
  qed
qed


lemma init_store_Inr:
  assumes "init_store to_float records s = Inr (self, s1)"
  shows "records \<noteq> []"
    and "np_array to_float (tl records) = Inr (ndarrays s1 (GAIN_at self))"
    and "pylists s1 (SNPs_at self) = hd records"
    and "GAIN_at self < fresh s1" and "SNPs_at self < fresh s1"
    and "SNPs_at self = fresh s" and "GAIN_at self = Suc (fresh s)"
    and "init to_float records = Inr \<lparr>SNPs = hd records, GAIN = ndarrays s1 (GAIN_at self)\<rparr>"
  using assms
  by (cases records;
      auto simp: init_store_def init_def new_pylist_def new_ndarray_def split: sum.splits)+

lemma init_store_Inl:
  "init_store to_float records s = Inl e \<longleftrightarrow> init to_float records = Inl e"
  by (cases records)
     (auto simp: init_store_def init_def new_pylist_def new_ndarray_def split: sum.splits)

lemma store_after_frame:
  assumes "a < fresh s"
  shows "ndarrays (store_after gamma g s) a = ndarrays s a"
    and "vectors (store_after gamma g s) a = vectors s a"
    and "pylists (store_after gamma g s) a = pylists s a"
  using assms by (simp_all add: store_after_def)

lemma main_store_main:
  "map_sum id (map_option fst) (main_store to_float cm_dot gamma usegpu records s)
     = main to_float cm_dot gamma usegpu records"
proof (cases "init_store to_float records s")
  case (Inl e)
  then have "init to_float records = Inl e" by (simp add: init_store_Inl)
  then show ?thesis using Inl by (simp add: main_store_def main_def)
next
  case (Inr p)
  obtain self s1 where p: "p = (self, s1)" by (cases p)
  note i = Inr [unfolded p]
  let ?obj = "\<lparr>SNPs = hd records, GAIN = ndarrays s1 (GAIN_at self)\<rparr>"
  have pi: "init to_float records = Inr ?obj" using i by (rule init_store_Inr)
  have g: "GAIN_at self < fresh s1" and n: "SNPs_at self < fresh s1"
    and names: "pylists s1 (SNPs_at self) = hd records"
    using init_store_Inr [OF i] by simp_all
  have names2: "pylists (store_after gamma (GAIN_at self) s1) (SNPs_at self) = hd records"
    using store_after_frame(3) [OF n] names by simp
  show ?thesis
    unfolding main_store_def main_def i pi
    by (simp add: calculate_snprank_store_eq [OF g, where names = "hd records"] names2
        split: sum.splits option.splits)
qed





section \<open>A matrix with trace zero\<close>

lemma div_zero_not_fin: "\<not> is_fin (x / (0 :: fl))"
  by (cases x) (simp_all add: zero_fl_def)

lemma plus_not_fin: "\<not> is_fin y \<Longrightarrow> \<not> is_fin (x + (y :: fl))"
  by (cases x; cases y) simp_all

lemma plus_not_fin_left: "\<not> is_fin x \<Longrightarrow> \<not> is_fin (x + (y :: fl))"
  by (cases x; cases y) simp_all

lemma times_not_fin: "\<not> is_fin x \<Longrightarrow> \<not> is_fin (x * (y :: fl))"
  by (cases x; cases y) simp_all

lemma div_not_fin: "\<not> is_fin x \<Longrightarrow> \<not> is_fin y \<Longrightarrow> x / y = (NaN :: fl)"
  by (cases x; cases y) simp_all

lemma NaN_not_less: "\<not> \<bar>NaN - x\<bar> < (t :: fl)"
  by (cases x; cases t) simp_all


lemma np_sum_not_fin: "xs \<noteq> [] \<Longrightarrow> \<not> is_fin (hd xs) \<Longrightarrow> \<not> is_fin (np_sum (xs :: fl list))"
  by (cases xs) (simp_all add: np_sum_def plus_not_fin_left)

lemma transition_not_fin:
  fixes G :: "fl mat"
  assumes "square n G" and "cm_dot_is_dot cm_dot gamma usegpu G" and "trace G = 0"
    and "i < n" and "j < n"
  shows "\<not> is_fin (transition cm_dot gamma usegpu G ! i ! j)"
  unfolding nth_transition [OF assms(1,2,4,5)] assms(3)
  by (intro plus_not_fin div_zero_not_fin)

lemma dot_not_fin:
  fixes T :: "fl mat"
  assumes sq: "square n T" and nf: "\<And>i j. i < n \<Longrightarrow> j < n \<Longrightarrow> \<not> is_fin (T ! i ! j)"
    and cv: "colvec n r" and i: "i < n"
  shows "\<not> is_fin (dot T r ! i ! 0)"
proof -
  have n: "0 < n" using i by simp
  have nc: "ncols r = 1" using cv n by (rule colvec_ncols)
  have lr: "length r = n" using cv by (simp add: colvec_def)
  have lT: "length (T ! i) = n" using sq i by (rule square_nth)
  have e: "dot T r ! i ! 0 = np_sum (map2 (*) (T ! i) (column r 0))"
    using sq i nc by (simp add: nth_dot square_length)
  have "length (map2 (*) (T ! i) (column r 0)) = n"
    using lT lr by (simp add: column_def)
  then have ne: "map2 (*) (T ! i) (column r 0) \<noteq> []"
    using n by auto
  have "hd (map2 (*) (T ! i) (column r 0)) = map2 (*) (T ! i) (column r 0) ! 0"
    using ne by (simp add: hd_conv_nth)
  also have "\<dots> = T ! i ! 0 * r ! 0 ! 0"
    using lT lr n by (simp add: column_def)
  finally have "\<not> is_fin (hd (map2 (*) (T ! i) (column r 0)))"
    using nf [OF i n] by (simp add: times_not_fin)
  with ne show ?thesis unfolding e by (rule np_sum_not_fin)
qed

lemma step_all_NaN:
  fixes T :: "fl mat"
  assumes sq: "square n T" and nf: "\<And>i j. i < n \<Longrightarrow> j < n \<Longrightarrow> \<not> is_fin (T ! i ! j)"
    and cv: "colvec n r" and n: "0 < n"
  shows "normalize_np (dot T r) = replicate n [NaN]"
proof -
  let ?v = "dot T r"
  have cvv: "colvec n ?v"
    using sq cv by (intro colvec_dot) (simp_all add: square_length)
  have lv: "length ?v = n" using cvv by (simp add: colvec_def)
  have vnf: "\<And>i. i < n \<Longrightarrow> \<not> is_fin (?v ! i ! 0)"
    using sq nf cv by (rule dot_not_fin)
  have c: "concat ?v = map (\<lambda>row. row ! 0) ?v" using cvv by (rule colvec_concat)
  have lc: "length (concat ?v) = n" unfolding c using lv by simp
  then have ne: "concat ?v \<noteq> []" using n by auto
  then have "hd (concat ?v) = concat ?v ! 0" by (simp add: hd_conv_nth)
  also have "\<dots> = map (\<lambda>row. row ! 0) ?v ! 0" by (simp only: c)
  also have "\<dots> = ?v ! 0 ! 0" using lv n by simp
  finally have "hd (concat ?v) = ?v ! 0 ! 0" .
  with ne have s: "\<not> is_fin (np_sum (concat ?v))"
    using vnf [OF n] by (intro np_sum_not_fin) simp_all
  show ?thesis
  proof (rule nth_equalityI)
    show "length (normalize_np ?v) = length (replicate n [NaN])"
      using lv by (simp add: normalize_np_def mat_div_def)
  next
    fix i assume "i < length (normalize_np ?v)"
    then have i: "i < n" using lv by (simp add: normalize_np_def mat_div_def)
    have row: "?v ! i = [?v ! i ! 0]" using cvv i by (rule colvec_nth)
    have "normalize_np ?v ! i = map (\<lambda>x. x / np_sum (concat ?v)) (?v ! i)"
      using i lv by (simp add: normalize_np_def mat_div_def)
    also have "\<dots> = [?v ! i ! 0 / np_sum (concat ?v)]"
      by (subst row) simp
    also have "\<dots> = [NaN]"
      using vnf [OF i] s by (simp add: div_not_fin)
    finally show "normalize_np ?v ! i = replicate n [NaN] ! i"
      using i by simp
  qed
qed

lemma not_converged_NaN:
  fixes r :: "fl mat"
  assumes "colvec n r" and "0 < n"
  shows "\<not> converged (replicate n [NaN]) r"
proof -
  obtain row rest where r: "r = row # rest"
    using assms by (cases r) (auto simp: colvec_def)
  then obtain x where row: "row = [x]"
    using assms(1) by (cases row) (auto simp: colvec_def)
  obtain m where n: "n = Suc m" using assms(2) by (cases n) simp_all
  show ?thesis
    unfolding r row n by (simp add: converged_def NaN_not_less)
qed

lemma all_not_fin_diverges:
  fixes T :: "fl mat"
  assumes sq: "square n T" and nf: "\<And>i j. i < n \<Longrightarrow> j < n \<Longrightarrow> \<not> is_fin (T ! i ! j)"
    and cv: "colvec n r" and n: "0 < n"
  shows "power_loop T r = None"
proof -
  have "\<not> converged (iterates T r (Suc k)) (iterates T r k)" for k
  proof -
    have cvk: "colvec n (iterates T r k)"
      using square_length [OF sq] cv by (rule colvec_iterates)
    have "iterates T r (Suc k) = replicate n [NaN]"
      unfolding iterates_Suc using sq nf cvk n by (rule step_all_NaN)
    then show ?thesis using not_converged_NaN [OF cvk n] by simp
  qed
  then show ?thesis by (simp add: power_loop_None_iff)
qed

lemma zero_trace_diverges:
  fixes self :: "fl snprank"
  assumes "square n (GAIN self)" and "0 < n" and "trace (GAIN self) = 0"
    and "cm_dot_is_dot cm_dot gamma usegpu (GAIN self)"
  shows "calculate_snprank cm_dot self gamma usegpu = Inr None"
proof -
  let ?T = "transition cm_dot gamma usegpu (GAIN self)"
  have sqT: "square n ?T" using assms(1,4) by (rule square_transition)
  have nf: "\<And>i j. i < n \<Longrightarrow> j < n \<Longrightarrow> \<not> is_fin (?T ! i ! j)"
    using assms(1,4,3) by (rule transition_not_fin)
  have "power_loop ?T (r_init n) = None"
    using sqT nf colvec_r_init assms(2) by (rule all_not_fin_diverges)
  then show ?thesis
    unfolding calculate_snprank_square [OF assms(1,2)] by simp
qed


text \<open>
  C5, as the program behaves. For a square matrix whose trace is exactly zero the rank
  operation raises no error and returns no result. The division by the trace is not
  guarded and does not raise: every entry of the transition matrix is infinite or NaN,
  the rank vector is NaN in every entry after each pass of the loop, the test
  \<open>abs(r - r_old) < threshold\<close> is false on NaN, and the loop does not end.
\<close>

theorem zero_trace_never_returns:
  fixes self :: "fl snprank"
  assumes "square n (GAIN self)" and "0 < n" and "trace (GAIN self) = 0"
    and "cm_dot_is_dot cm_dot gamma usegpu (GAIN self)"
  shows "calculate_snprank cm_dot self gamma usegpu = Inr None
       \<and> (\<forall>i<n. \<forall>j<n. \<not> is_fin (transition cm_dot gamma usegpu (GAIN self) ! i ! j))
       \<and> (\<forall>k. iterates (transition cm_dot gamma usegpu (GAIN self)) (r_init n) (Suc k)
              = replicate n [NaN])"
proof -
  let ?T = "transition cm_dot gamma usegpu (GAIN self)"
  have sqT: "square n ?T" using assms(1,4) by (rule square_transition)
  have nf: "\<And>i j. i < n \<Longrightarrow> j < n \<Longrightarrow> \<not> is_fin (?T ! i ! j)"
    using assms(1,4,3) by (rule transition_not_fin)
  have "iterates ?T (r_init n) (Suc k) = replicate n [NaN]" for k
  proof -
    have "colvec n (iterates ?T (r_init n) k)"
      using square_length [OF sqT] colvec_r_init by (rule colvec_iterates)
    then show ?thesis
      unfolding iterates_Suc using sqT nf assms(2) by (intro step_all_NaN) simp_all
  qed
  then show ?thesis
    using zero_trace_diverges [OF assms] nf by simp
qed

theorem zero_trace_never_returns_witness:
  "square 2 [[Fin 0, Fin 1], [Fin 1, Fin 0]]
   \<and> trace [[Fin 0, Fin 1], [Fin 1, Fin 0]] = 0
   \<and> calculate_snprank dot \<lparr>SNPs = [''A'', ''B''], GAIN = [[Fin 0, Fin 1], [Fin 1, Fin 0]]\<rparr>
        (Fin (85/100)) False = Inr None"
proof -
  have sq: "square 2 (GAIN \<lparr>SNPs = [''A'', ''B''], GAIN = [[Fin 0, Fin 1], [Fin 1, Fin 0]]\<rparr>)"
    by (simp add: square_def)
  have tr: "trace (GAIN \<lparr>SNPs = [''A'', ''B''], GAIN = [[Fin 0, Fin 1], [Fin 1, Fin 0]]\<rparr>) = 0"
    by (simp add: trace_def diagonal_def ncols_def np_sum_def upt_conv_Cons numeral_2_eq_2 zero_fl_def)
  have g: "cm_dot_is_dot dot (Fin (85/100)) False
      (GAIN \<lparr>SNPs = [''A'', ''B''], GAIN = [[Fin 0, Fin 1], [Fin 1, Fin 0]]\<rparr>)"
    by (simp add: cm_dot_is_dot_def)
  have n: "0 < (2 :: nat)" by simp
  show ?thesis
    using zero_trace_never_returns [OF sq n tr g] sq tr by simp
qed

text \<open>
  C5, as the claim states it, fails: on the 1 by 1 matrix \<open>[[0]]\<close>, whose trace is zero,
  the rank operation raises no error; it does not return.
\<close>

theorem zero_trace_counterexample:
  "calculate_snprank dot \<lparr>SNPs = [''A''], GAIN = [[Fin 0]]\<rparr> (Fin (85/100)) False = Inr None"
proof -
  have sq: "square 1 (GAIN \<lparr>SNPs = [''A''], GAIN = [[Fin 0]]\<rparr>)"
    by (simp add: square_def)
  have tr: "trace (GAIN \<lparr>SNPs = [''A''], GAIN = [[Fin 0]]\<rparr>) = 0"
    by (simp add: trace_def diagonal_def ncols_def np_sum_def zero_fl_def)
  have g: "cm_dot_is_dot dot (Fin (85/100)) False (GAIN \<lparr>SNPs = [''A''], GAIN = [[Fin 0]]\<rparr>)"
    by (simp add: cm_dot_is_dot_def)
  have n: "0 < (1 :: nat)" by simp
  show ?thesis
    using sq n tr g by (rule zero_trace_diverges)
qed


section \<open>Names and dimension\<close>

lemma example31_transition:
  "transition cm_dot (- 1) False [[3, 0], [0, 1 :: real]] = [[1/2, 3/2], [1/2, - (1/2)]]"
proof -
  have f: "fill_D_T_nz (- 1) [[3, 0], [0, 1 :: real]] = ([[1/3, 0], [0, 1]], [2, 2])"
    by (simp add: sum_axis0_def ncols_def column_def np_sum_def fill_D_T_nz_def
        nonzero_def fill_step_def zeros_def ones_def upt_conv_Cons numeral_2_eq_2)
  have t: "trace [[3, 0], [0, 1 :: real]] = 4"
    by (simp add: trace_def diagonal_def ncols_def np_sum_def upt_conv_Cons numeral_2_eq_2)
  show ?thesis
    unfolding transition_def f t
    by (simp add: dot_def mat_add_def scalar_mult_def mat_div_def
        broadcast_mult_def reshape_col_def diagonal_def ncols_def column_def np_sum_def
        upt_conv_Cons numeral_2_eq_2)
qed

lemma example31_step1:
  "normalize_np (dot [[1/2, 3/2], [1/2, - (1/2)]] [[1/2], [1/2 :: real]]) = [[1], [0]]"
  by (simp add: normalize_np_def dot_def mat_div_def ncols_def column_def np_sum_def
      upt_conv_Cons)

lemma example31_step2:
  "normalize_np (dot [[1/2, 3/2], [1/2, - (1/2)]] [[1], [0 :: real]]) = [[1/2], [1/2]]"
  by (simp add: normalize_np_def dot_def mat_div_def ncols_def column_def np_sum_def
      upt_conv_Cons)

lemma example31_iterates:
  "iterates [[1/2, 3/2], [1/2, - (1/2)]] [[1/2], [1/2 :: real]] k
     = (if even k then [[1/2], [1/2]] else [[1], [0]])"
  by (induction k) (simp_all add: iterates_0 iterates_Suc example31_step1 example31_step2)

lemma example31_calculate_snprank:
  "calculate_snprank cm_dot \<lparr>SNPs = names, GAIN = [[3, 0], [0, 1 :: real]]\<rparr> (- 1) False = Inr None"
proof -
  have sh: "shape [[3, 0], [0, 1 :: real]] = Inr (2, 2)" by (simp add: shape_def)
  have "\<forall>k. \<not> converged (iterates [[1/2, 3/2], [1/2, - (1/2)]] [[1/2], [1/2 :: real]] (Suc k))
                 (iterates [[1/2, 3/2], [1/2, - (1/2)]] [[1/2], [1/2 :: real]] k)"
    by (simp add: example31_iterates converged_real)
  then have "power_loop [[1/2, 3/2], [1/2, - (1/2)]] [[1/2], [1/2 :: real]] = None"
    by (simp add: power_loop_None_iff)
  then show ?thesis
    unfolding calculate_snprank_def snprank.select_convs sh example31_transition
    by (simp add: example_r_init)
qed

lemma zip_take_min:
  "zip (take (min (length xs) (length ys)) xs) (take (min (length xs) (length ys)) ys) = zip xs ys"
proof (induction xs arbitrary: ys)
  case Nil
  show ?case by simp
next
  case (Cons x xs)
  then show ?case by (cases ys) simp_all
qed

lemma zip3_take:
  assumes "length ys = n" and "length zs = n"
  shows "zip3 xs ys zs
       = zip3 (take (min (length xs) n) xs) (take (min (length xs) n) ys) (take (min (length xs) n) zs)"
proof -
  have "zip xs (zip ys zs)
      = zip (take (min (length xs) n) xs) (take (min (length xs) n) (zip ys zs))"
    using zip_take_min [of xs "zip ys zs"] assms by simp
  then show ?thesis by (simp add: zip3_def take_zip)
qed

text \<open>
  C10, as the program behaves. The number of names is never compared with the dimension
  of the matrix. When the data rows form a valid square matrix (entries that are not
  negative, trace different from zero) and \<open>0 \<le> gamma < 1\<close>, then with any header at all
  the loader accepts the input, the rank operation returns, the run ends without an
  error, and the formatter writes \<open>min(number of names, N)\<close> data rows: the first that
  many names with the first that many scores and diagonal values, sorted; \<open>zip\<close> drops
  the names or the scores beyond the shorter of the two. Entries are read as real
  numbers.
\<close>

theorem names_not_checked:
  fixes G :: "real mat"
  assumes "np_array to_float body = Inr G"
    and "square n G"
    and "\<forall>row\<in>set G. \<forall>x\<in>set row. 0 \<le> x"
    and "trace G \<noteq> 0"
    and "0 \<le> gamma" and "gamma < 1"
    and "cm_dot_is_dot cm_dot gamma usegpu G"
  shows "\<exists>r. init to_float (header # body) = Inr \<lparr>SNPs = header, GAIN = G\<rparr>
           \<and> calculate_snprank cm_dot \<lparr>SNPs = header, GAIN = G\<rparr> gamma usegpu
               = Inr (Some (r, diagonal G))
           \<and> length r = n
           \<and> main to_float cm_dot gamma usegpu (header # body)
               = Inr (Some (print_to_file header r (diagonal G)))
           \<and> length (rows_of (print_to_file header r (diagonal G))) = min (length header) n
           \<and> mset (rows_of (print_to_file header r (diagonal G)))
               = mset (zip3 (take (min (length header) n) header)
                            (take (min (length header) n) r)
                            (take (min (length header) n) (diagonal G)))"
proof -
  let ?obj = "\<lparr>SNPs = header, GAIN = G\<rparr>"
  have i: "init to_float (header # body) = Inr ?obj"
    using assms(1) by (simp add: init_def)
  obtain r where c: "calculate_snprank cm_dot ?obj gamma usegpu = Inr (Some (r, diagonal G))"
    using valid_input_returns [where self = ?obj and n = n and gamma = gamma
        and cm_dot = cm_dot and usegpu = usegpu] assms(2-7)
    by auto
  have m: "main to_float cm_dot gamma usegpu (header # body)
           = Inr (Some (print_to_file header r (diagonal G)))"
    unfolding main_def i using c by simp
  have rect: "list_all (\<lambda>row. length row = ncols (GAIN ?obj)) (GAIN ?obj)"
    using assms(1) np_array_rect(2) by simp
  have gpu: "cm_dot_is_dot cm_dot gamma usegpu (GAIN ?obj)" using assms(7) by simp
  have lG: "length G = n" using assms(2) by (rule square_length)
  have lr: "length r = n"
    using calculate_snprank_lengths(1) [OF c rect gpu] lG by simp
  have ld: "length (diagonal G) = n" using assms(2) by (rule length_diagonal)
  have len: "length (rows_of (print_to_file header r (diagonal G))) = min (length header) n"
    using lr ld by (simp add: length_rows_of_print_to_file)
  have "mset (rows_of (print_to_file header r (diagonal G))) = mset (zip3 header r (diagonal G))"
    by (simp add: rows_of_print_to_file mset_sorted_reverse)
  then have ms: "mset (rows_of (print_to_file header r (diagonal G)))
               = mset (zip3 (take (min (length header) n) header)
                            (take (min (length header) n) r)
                            (take (min (length header) n) (diagonal G)))"
    using zip3_take [OF lr ld, of header] by simp
  show ?thesis using i c lr m len ms by blast
qed

theorem names_not_checked_witness:
  "np_array float_of_digits [[''2'', ''1''], [''1'', ''2'']] = Inr [[2, 1], [1, 2]]
   \<and> square 2 [[2, 1], [1, 2 :: real]] \<and> trace [[2, 1], [1, 2 :: real]] \<noteq> 0
   \<and> main float_of_digits dot (85/100) False [[''A''], [''2'', ''1''], [''1'', ''2'']]
     = Inr (Some [Header [''SNP'', ''SNPrank'', ''IG''], Row ''A'' (1/2) 2])
   \<and> (\<exists>r. main float_of_digits dot (85/100) False
             [[''A'', ''B'', ''C''], [''2'', ''1''], [''1'', ''2'']]
           = Inr (Some (print_to_file [''A'', ''B'', ''C''] r [2, 2]))
         \<and> length (rows_of (print_to_file [''A'', ''B'', ''C''] r [2, 2])) = 2)"
proof -
  have a: "np_array float_of_digits [[''2'', ''1''], [''1'', ''2'']] = Inr [[2, 1], [1, 2]]"
    by (simp add: np_array_def float_of_digits_examples)
  have sq: "square 2 [[2, 1], [1, 2 :: real]]" by (simp add: square_def)
  have nn: "\<forall>row\<in>set [[2, 1], [1, 2 :: real]]. \<forall>x\<in>set row. 0 \<le> x" by simp
  have tr: "trace [[2, 1], [1, 2 :: real]] \<noteq> 0" by (simp add: example_trace)
  have g0: "0 \<le> (85/100 :: real)" and g1: "(85/100 :: real) < 1" by simp_all
  have g: "cm_dot_is_dot dot (85/100) False [[2, 1], [1, 2 :: real]]"
    by (simp add: cm_dot_is_dot_def)
  have p: "print_to_file [''A''] [1/2, 1/2 :: real] [2, 2]
         = [Header [''SNP'', ''SNPrank'', ''IG''], Row ''A'' (1/2) 2]"
    by (simp add: print_to_file_def sorted_reverse_def zip3_def)
  note c = example_calculate_snprank [where cm_dot = dot and names = "[''A'']"]
  have one: "main float_of_digits dot (85/100) False [[''A''], [''2'', ''1''], [''1'', ''2'']]
     = Inr (Some [Header [''SNP'', ''SNPrank'', ''IG''], Row ''A'' (1/2) 2])"
    using names_not_checked [OF a sq nn tr g0 g1 g, where header = "[''A'']"] c p
    by auto
  have three: "\<exists>r. main float_of_digits dot (85/100) False
             [[''A'', ''B'', ''C''], [''2'', ''1''], [''1'', ''2'']]
           = Inr (Some (print_to_file [''A'', ''B'', ''C''] r [2, 2]))
         \<and> length (rows_of (print_to_file [''A'', ''B'', ''C''] r [2, 2])) = 2"
    using names_not_checked [OF a sq nn tr g0 g1 g, where header = "[''A'', ''B'', ''C'']"]
    by (auto simp: example_diagonal)
  show ?thesis using a sq tr one three by blast
qed

text \<open>
  C10, as the claim states it, fails: a square body does not make the run end. With one
  name over the 2 by 2 matrix \<open>[[3,0],[0,1]]\<close> and \<open>gamma = -1\<close> the rank vector
  alternates between \<open>(1/2, 1/2)\<close> and \<open>(1, 0)\<close> and the run never ends; with two names
  over the 1 by 1 matrix \<open>[[0]]\<close>, whose trace is zero, the loader accepts the input and
  the rank operation never returns. In both runs no row is written.
\<close>

theorem names_not_checked_counterexample:
  "main float_of_digits dot (- 1) False [[''A''], [''3'', ''0''], [''0'', ''1'']] = Inr None
   \<and> init fl_of_digits [[''A'', ''B''], [''0'']] = Inr \<lparr>SNPs = [''A'', ''B''], GAIN = [[Fin 0]]\<rparr>
   \<and> calculate_snprank dot \<lparr>SNPs = [''A'', ''B''], GAIN = [[Fin 0]]\<rparr> (Fin (85/100)) False
       = Inr None"
proof (intro conjI)
  have i: "init float_of_digits [[''A''], [''3'', ''0''], [''0'', ''1'']]
     = Inr \<lparr>SNPs = [''A''], GAIN = [[3, 0], [0, 1]]\<rparr>"
    by (simp add: init_def np_array_def float_of_digits_def)
  show "main float_of_digits dot (- 1) False [[''A''], [''3'', ''0''], [''0'', ''1'']] = Inr None"
    unfolding main_def i sum.case example31_calculate_snprank by simp
  show "init fl_of_digits [[''A'', ''B''], [''0'']] = Inr \<lparr>SNPs = [''A'', ''B''], GAIN = [[Fin 0]]\<rparr>"
    by (simp add: init_def np_array_def fl_of_digits_def float_of_digits_def)
  have sq: "square 1 (GAIN \<lparr>SNPs = [''A'', ''B''], GAIN = [[Fin 0]]\<rparr>)"
    by (simp add: square_def)
  have tr: "trace (GAIN \<lparr>SNPs = [''A'', ''B''], GAIN = [[Fin 0]]\<rparr>) = 0"
    by (simp add: trace_def diagonal_def ncols_def np_sum_def zero_fl_def)
  have g: "cm_dot_is_dot dot (Fin (85/100)) False (GAIN \<lparr>SNPs = [''A'', ''B''], GAIN = [[Fin 0]]\<rparr>)"
    by (simp add: cm_dot_is_dot_def)
  have n: "0 < (1 :: nat)" by simp
  show "calculate_snprank dot \<lparr>SNPs = [''A'', ''B''], GAIN = [[Fin 0]]\<rparr> (Fin (85/100)) False
       = Inr None"
    using sq n tr g by (rule zero_trace_diverges)
qed


section \<open>The rank operation is the loop\<close>

lemma example13_transition:
  "transition cm_dot (- 1) False [[1, 0], [0, 3 :: real]] = [[- (1/2), 1/2], [3/2, 1/2]]"
proof -
  have f: "fill_D_T_nz (- 1) [[1, 0], [0, 3 :: real]] = ([[1, 0], [0, 1/3]], [2, 2])"
    by (simp add: sum_axis0_def ncols_def column_def np_sum_def fill_D_T_nz_def
        nonzero_def fill_step_def zeros_def ones_def upt_conv_Cons numeral_2_eq_2)
  have t: "trace [[1, 0], [0, 3 :: real]] = 4"
    by (simp add: trace_def diagonal_def ncols_def np_sum_def upt_conv_Cons numeral_2_eq_2)
  show ?thesis
    unfolding transition_def f t
    by (simp add: dot_def mat_add_def scalar_mult_def mat_div_def
        broadcast_mult_def reshape_col_def diagonal_def ncols_def column_def np_sum_def
        upt_conv_Cons numeral_2_eq_2)
qed

lemma example13_step1:
  "normalize_np (dot [[- (1/2), 1/2], [3/2, 1/2]] [[1/2], [1/2 :: real]]) = [[0], [1]]"
  by (simp add: normalize_np_def dot_def mat_div_def ncols_def column_def np_sum_def
      upt_conv_Cons)

lemma example13_step2:
  "normalize_np (dot [[- (1/2), 1/2], [3/2, 1/2]] [[0], [1 :: real]]) = [[1/2], [1/2]]"
  by (simp add: normalize_np_def dot_def mat_div_def ncols_def column_def np_sum_def
      upt_conv_Cons)

lemma example13_iterates:
  "iterates [[- (1/2), 1/2], [3/2, 1/2]] [[1/2], [1/2 :: real]] k
     = (if even k then [[1/2], [1/2]] else [[0], [1]])"
  by (induction k) (simp_all add: iterates_0 iterates_Suc example13_step1 example13_step2)

text \<open>
  C3. On a square matrix the rank operation runs this loop and nothing else. The
  iteration starts from the column whose entries are all \<open>1/N\<close>. One pass replaces \<open>r\<close>
  by \<open>T \<cdot> r\<close> divided by the sum of the entries of \<open>T \<cdot> r\<close> (not by a Euclidean norm),
  with \<open>T\<close> the transition matrix. The operation returns the first iterate all of whose
  entries differ from those of the previous iterate by less than \<open>10\<^sup>-\<^sup>4\<close> in absolute
  value, and it returns exactly if there is such an iterate: there is no bound on the
  number of passes, and when no iterate meets the tolerance the operation never returns
  (\<open>Inr None\<close>). This holds for every type of entries; on real numbers \<open>1/N\<close> and the
  tolerance have the values \<open>1 / real N\<close> and \<open>1/10000\<close>.
\<close>

theorem power_iteration:
  fixes self :: "'a::{zero,one,plus,minus,times,inverse,power,abs,ord} snprank"
  assumes "square n (GAIN self)" and "0 < n"
  shows "iterates (transition cm_dot gamma usegpu (GAIN self)) (r_init n) 0
           = replicate n [1 / from_nat n]
       \<and> (\<forall>k. iterates (transition cm_dot gamma usegpu (GAIN self)) (r_init n) (Suc k)
              = mat_div (dot (transition cm_dot gamma usegpu (GAIN self))
                             (iterates (transition cm_dot gamma usegpu (GAIN self)) (r_init n) k))
                  (np_sum (concat (dot (transition cm_dot gamma usegpu (GAIN self))
                             (iterates (transition cm_dot gamma usegpu (GAIN self)) (r_init n) k)))))
       \<and> (\<forall>r' r :: 'a mat. converged r' r \<longleftrightarrow>
              (\<forall>(a, b)\<in>set (zip (concat r') (concat r)). \<bar>a - b\<bar> < 1 / from_nat 10 ^ 4))
       \<and> (\<forall>r ig. calculate_snprank cm_dot self gamma usegpu = Inr (Some (r, ig)) \<longleftrightarrow>
              (\<exists>k. converged (iterates (transition cm_dot gamma usegpu (GAIN self)) (r_init n) (Suc k))
                              (iterates (transition cm_dot gamma usegpu (GAIN self)) (r_init n) k)
                 \<and> (\<forall>j<k. \<not> converged
                              (iterates (transition cm_dot gamma usegpu (GAIN self)) (r_init n) (Suc j))
                              (iterates (transition cm_dot gamma usegpu (GAIN self)) (r_init n) j))
                 \<and> r = concat (iterates (transition cm_dot gamma usegpu (GAIN self)) (r_init n) (Suc k))
                 \<and> ig = diagonal (GAIN self)))
       \<and> (calculate_snprank cm_dot self gamma usegpu = Inr None \<longleftrightarrow>
              (\<forall>k. \<not> converged (iterates (transition cm_dot gamma usegpu (GAIN self)) (r_init n) (Suc k))
                                (iterates (transition cm_dot gamma usegpu (GAIN self)) (r_init n) k)))
       \<and> (\<forall>e. calculate_snprank cm_dot self gamma usegpu \<noteq> Inl e)
       \<and> (from_nat n :: real) = real n \<and> (1 / from_nat 10 ^ 4 :: real) = 1 / 10000"
proof -
  let ?T = "transition cm_dot gamma usegpu (GAIN self)"
  note c = calculate_snprank_square [OF assms, of cm_dot gamma usegpu]
  have 1: "iterates ?T (r_init n) 0 = replicate n [1 / from_nat n]"
    by (simp add: iterates_0 r_init_entries)
  have 2: "\<forall>k. iterates ?T (r_init n) (Suc k)
              = mat_div (dot ?T (iterates ?T (r_init n) k))
                  (np_sum (concat (dot ?T (iterates ?T (r_init n) k))))"
    by (simp add: iterates_Suc normalize_np_def)
  have 3: "\<forall>r' r :: 'a mat. converged r' r \<longleftrightarrow>
              (\<forall>(a, b)\<in>set (zip (concat r') (concat r)). \<bar>a - b\<bar> < 1 / from_nat 10 ^ 4)"
    by (simp add: converged_iff threshold_def)
  have 4: "calculate_snprank cm_dot self gamma usegpu = Inr (Some (r, ig)) \<longleftrightarrow>
              (\<exists>k. converged (iterates ?T (r_init n) (Suc k)) (iterates ?T (r_init n) k)
                 \<and> (\<forall>j<k. \<not> converged (iterates ?T (r_init n) (Suc j)) (iterates ?T (r_init n) j))
                 \<and> r = concat (iterates ?T (r_init n) (Suc k))
                 \<and> ig = diagonal (GAIN self))" for r ig
  proof
    assume "calculate_snprank cm_dot self gamma usegpu = Inr (Some (r, ig))"
    then obtain r' where r': "power_loop ?T (r_init n) = Some r'"
      and r: "r = concat r'" and ig: "ig = diagonal (GAIN self)"
      unfolding c by auto
    from r' obtain k where "converged (iterates ?T (r_init n) (Suc k)) (iterates ?T (r_init n) k)"
      "\<forall>j<k. \<not> converged (iterates ?T (r_init n) (Suc j)) (iterates ?T (r_init n) j)"
      "r' = iterates ?T (r_init n) (Suc k)"
      using power_loop_returns by blast
    then show "\<exists>k. converged (iterates ?T (r_init n) (Suc k)) (iterates ?T (r_init n) k)
                 \<and> (\<forall>j<k. \<not> converged (iterates ?T (r_init n) (Suc j)) (iterates ?T (r_init n) j))
                 \<and> r = concat (iterates ?T (r_init n) (Suc k))
                 \<and> ig = diagonal (GAIN self)"
      using r ig by blast
  next
    assume "\<exists>k. converged (iterates ?T (r_init n) (Suc k)) (iterates ?T (r_init n) k)
                 \<and> (\<forall>j<k. \<not> converged (iterates ?T (r_init n) (Suc j)) (iterates ?T (r_init n) j))
                 \<and> r = concat (iterates ?T (r_init n) (Suc k))
                 \<and> ig = diagonal (GAIN self)"
    then obtain k where k: "converged (iterates ?T (r_init n) (Suc k)) (iterates ?T (r_init n) k)"
      "\<forall>j<k. \<not> converged (iterates ?T (r_init n) (Suc j)) (iterates ?T (r_init n) j)"
      and r: "r = concat (iterates ?T (r_init n) (Suc k))" and ig: "ig = diagonal (GAIN self)"
      by blast
    have "power_loop ?T (r_init n) = Some (iterates ?T (r_init n) (Suc k))"
      using k by (rule power_loop_converges)
    then show "calculate_snprank cm_dot self gamma usegpu = Inr (Some (r, ig))"
      unfolding c using r ig by simp
  qed
  have 5: "calculate_snprank cm_dot self gamma usegpu = Inr None \<longleftrightarrow>
              (\<forall>k. \<not> converged (iterates ?T (r_init n) (Suc k)) (iterates ?T (r_init n) k))"
    unfolding c by (simp add: power_loop_None_iff)
  have 6: "\<forall>e. calculate_snprank cm_dot self gamma usegpu \<noteq> Inl e"
    unfolding c by simp
  have 7: "(from_nat n :: real) = real n" by (rule from_nat_real)
  have 8: "(1 / from_nat 10 ^ 4 :: real) = 1 / 10000" by (simp add: from_nat_real)
  show ?thesis using 1 2 3 4 5 6 7 8 by blast
qed

theorem power_iteration_witness:
  "square 2 (GAIN \<lparr>SNPs = [''S1'', ''S2''], GAIN = [[2, 1], [1, 2 :: real]]\<rparr>)
   \<and> calculate_snprank dot \<lparr>SNPs = [''S1'', ''S2''], GAIN = [[2, 1], [1, 2 :: real]]\<rparr> (85/100) False
       = Inr (Some ([1/2, 1/2], [2, 2]))
   \<and> square 2 (GAIN \<lparr>SNPs = [''S1'', ''S2''], GAIN = [[1, 0], [0, 3 :: real]]\<rparr>)
   \<and> calculate_snprank dot \<lparr>SNPs = [''S1'', ''S2''], GAIN = [[1, 0], [0, 3 :: real]]\<rparr> (- 1) False
       = Inr None"
proof -
  let ?a = "\<lparr>SNPs = [''S1'', ''S2''], GAIN = [[2, 1], [1, 2 :: real]]\<rparr>"
  let ?b = "\<lparr>SNPs = [''S1'', ''S2''], GAIN = [[1, 0], [0, 3 :: real]]\<rparr>"
  have n: "0 < (2 :: nat)" by simp
  have sa: "square 2 (GAIN ?a)" by (simp add: square_def)
  have sb: "square 2 (GAIN ?b)" by (simp add: square_def)
  have Ta: "transition dot (85/100) False (GAIN ?a) = [[77/120, 43/120], [43/120, 77/120]]"
    unfolding snprank.select_convs by (rule example_transition)
  have Tb: "transition dot (- 1) False (GAIN ?b) = [[- (1/2), 1/2], [3/2, 1/2]]"
    unfolding snprank.select_convs by (rule example13_transition)
  have a1: "iterates (transition dot (85/100) False (GAIN ?a)) (r_init 2) (Suc 0) = [[1/2], [1/2]]"
    unfolding Ta by (simp add: iterates_Suc iterates_0 example_r_init step_example)
  have a0: "iterates (transition dot (85/100) False (GAIN ?a)) (r_init 2) 0 = [[1/2], [1/2]]"
    by (simp add: iterates_0 example_r_init)
  have ca: "converged (iterates (transition dot (85/100) False (GAIN ?a)) (r_init 2) (Suc 0))
                      (iterates (transition dot (85/100) False (GAIN ?a)) (r_init 2) 0)"
    unfolding a1 a0 by (simp add: converged_real)
  have "\<exists>k. converged (iterates (transition dot (85/100) False (GAIN ?a)) (r_init 2) (Suc k))
                       (iterates (transition dot (85/100) False (GAIN ?a)) (r_init 2) k)
           \<and> (\<forall>j<k. \<not> converged (iterates (transition dot (85/100) False (GAIN ?a)) (r_init 2) (Suc j))
                                   (iterates (transition dot (85/100) False (GAIN ?a)) (r_init 2) j))
           \<and> [1/2, 1/2] = concat (iterates (transition dot (85/100) False (GAIN ?a)) (r_init 2) (Suc k))
           \<and> [2, 2] = diagonal (GAIN ?a)"
    using ca a1 by (intro exI [of _ 0]) (simp add: example_diagonal)
  then have A: "calculate_snprank dot ?a (85/100) False = Inr (Some ([1/2, 1/2], [2, 2]))"
    using power_iteration [OF sa n, where cm_dot = dot and gamma = "85/100" and usegpu = False]
    by blast
  have "\<forall>k. \<not> converged (iterates (transition dot (- 1) False (GAIN ?b)) (r_init 2) (Suc k))
                        (iterates (transition dot (- 1) False (GAIN ?b)) (r_init 2) k)"
    unfolding Tb example_r_init by (simp add: example13_iterates converged_real)
  then have B: "calculate_snprank dot ?b (- 1) False = Inr None"
    using power_iteration [OF sb n, where cm_dot = dot and gamma = "- 1" and usegpu = False]
    by blast
  show ?thesis using sa sb A B by blast
qed


end
